theory Spec2Isabelle
  imports Main "HOL-Library.AList" "HOL-Library.Sublist"
begin

text \<open>
  The command parsing and execution ordering of the zetas shell (\<open>zetas8.6.py\<close>): the
  splitter of lines into sub-commands (\<open>MultiCommandProcessor.parse_commands\<close>), the alias
  table (\<open>AliasManager\<close>), the classifier of command-line arguments
  (\<open>ParameterSystem.parse_args\<close>) and the executor that runs the classified arguments by
  priority (\<open>ParameterSystem.execute_in_order\<close>). The definitions come first, each
  translated from the Python source; the properties follow.
\<close>

section \<open>Python strings\<close>

text \<open>
  A Python \<open>str\<close> is a sequence of Unicode code points, so a string is modelled as a
  list of code points (natural numbers); \<open>S\<close> turns an ASCII literal into that form.
\<close>

type_synonym pystr = "nat list"

definition S :: "string \<Rightarrow> pystr" where
  "S s = map of_char s"

abbreviation (input) BACKSLASH :: nat where "BACKSLASH \<equiv> 92"
abbreviation (input) DQUOTE :: nat where "DQUOTE \<equiv> 34"
abbreviation (input) SQUOTE :: nat where "SQUOTE \<equiv> 39"
abbreviation (input) PLUS :: nat where "PLUS \<equiv> 43"
abbreviation (input) MINUS :: nat where "MINUS \<equiv> 45"
abbreviation (input) SLASH :: nat where "SLASH \<equiv> 47"
abbreviation (input) DOT :: nat where "DOT \<equiv> 46"

text \<open>
  \<open>str.isspace\<close> of one code point: the code points CPython lists as whitespace
  (U+0009..U+000D, U+001C..U+0020, U+0085, U+00A0, U+1680, U+2000..U+200A, U+2028,
  U+2029, U+202F, U+205F, U+3000). \<open>str.strip()\<close> and \<open>str.split()\<close> use it.
\<close>

definition isspace :: "nat \<Rightarrow> bool" where
  "isspace c \<longleftrightarrow>
     (9 \<le> c \<and> c \<le> 13) \<or> (28 \<le> c \<and> c \<le> 32) \<or> c = 133 \<or> c = 160 \<or> c = 5760 \<or>
     (8192 \<le> c \<and> c \<le> 8202) \<or> c = 8232 \<or> c = 8233 \<or> c = 8239 \<or> c = 8287 \<or>
     c = 12288"

definition lstrip :: "pystr \<Rightarrow> pystr" where
  "lstrip s = dropWhile isspace s"

definition rstrip :: "pystr \<Rightarrow> pystr" where
  "rstrip s = rev (dropWhile isspace (rev s))"

definition strip :: "pystr \<Rightarrow> pystr" where
  "strip s = rstrip (lstrip s)"

section \<open>MultiCommandProcessor.parse_commands\<close>

text \<open>
  The local variables of the loop. \<open>out_commands\<close> is the local \<open>commands\<close>;
  \<open>quote_char\<close> is \<open>None\<close> or the quote that opened the region.
\<close>

record scan_state =
  out_commands :: "pystr list"
  current_command :: pystr
  in_quotes :: bool
  quote_char :: "nat option"
  skip_next :: bool

definition scan_init :: scan_state where
  "scan_init = \<lparr>out_commands = [], current_command = [], in_quotes = False,
                 quote_char = None, skip_next = False\<rparr>"

text \<open>
  The body of the \<open>for i, char in enumerate(command_string)\<close> loop is \<open>scan_step\<close>;
  \<open>rest\<close> is \<open>command_string[i + 1:]\<close>, so \<open>i + 1 < len(command_string)\<close> is
  \<open>rest \<noteq> []\<close> and \<open>command_string[i + 1]\<close> is \<open>hd rest\<close>. \<open>scan\<close> runs the loop over
  \<open>command_string[i:]\<close>.
\<close>

definition scan_step :: "nat \<Rightarrow> pystr \<Rightarrow> scan_state \<Rightarrow> scan_state" where
  "scan_step char rest st =
     (if skip_next st then
        st\<lparr>skip_next := False, current_command := current_command st @ [char]\<rparr>
      else if char = BACKSLASH \<and> rest \<noteq> [] then
        st\<lparr>current_command := current_command st @ [hd rest], skip_next := True\<rparr>
      else if char = DQUOTE \<or> char = SQUOTE then
        (if \<not> in_quotes st then st\<lparr>in_quotes := True, quote_char := Some char\<rparr>
         else if quote_char st = Some char then st\<lparr>in_quotes := False, quote_char := None\<rparr>
         else st)
        \<lparr>current_command := current_command st @ [char]\<rparr>
      else if char = PLUS \<and> \<not> in_quotes st then
        (if current_command st \<noteq> [] then
           st\<lparr>out_commands := out_commands st @ [strip (current_command st)],
              current_command := []\<rparr>
         else st)
      else st\<lparr>current_command := current_command st @ [char]\<rparr>)"

fun scan :: "pystr \<Rightarrow> scan_state \<Rightarrow> scan_state" where
  "scan [] st = st"
| "scan (char # rest) st = scan rest (scan_step char rest st)"

definition parse_commands :: "pystr \<Rightarrow> pystr list" where
  "parse_commands command_string =
     (let st = scan command_string scan_init in
      if current_command st \<noteq> [] then out_commands st @ [strip (current_command st)]
      else out_commands st)"

subsection \<open>Predicates for the statements about the splitter\<close>

text \<open>A string with no separator, quote or backslash character.\<close>

definition plain :: "pystr \<Rightarrow> bool" where
  "plain s \<longleftrightarrow> (\<forall>c\<in>set s. c \<noteq> PLUS \<and> c \<noteq> DQUOTE \<and> c \<noteq> SQUOTE \<and> c \<noteq> BACKSLASH)"

section \<open>AliasManager\<close>

text \<open>
  \<open>aliases\<close> is the dictionary \<open>self.aliases\<close>; \<open>aliases_file\<close> is the file
  \<open>~/.zetas_aliases\<close>: \<open>None\<close> while it does not exist, the table it holds as JSON, or
  \<open>Damaged\<close> when a write stopped after the file was opened and emptied. Printed messages
  are left out.
\<close>

datatype file_content = Json "pystr \<rightharpoonup> pystr" | Damaged

record alias_manager =
  aliases :: "pystr \<rightharpoonup> pystr"
  aliases_file :: "file_content option"

text \<open>
  \<open>_save_aliases\<close>. The write succeeds; or \<open>open(..., 'w')\<close> raises and the file is as it
  was; or the file is opened, which empties it, and \<open>json.dump\<close> raises before the text is
  complete. The method catches both exceptions and only reports them.
\<close>

datatype write_outcome = Written | OpenFailed | DumpFailed

definition save_aliases :: "write_outcome \<Rightarrow> alias_manager \<Rightarrow> alias_manager" where
  "save_aliases wo am =
     (case wo of
        Written \<Rightarrow> am\<lparr>aliases_file := Some (Json (aliases am))\<rparr>
      | OpenFailed \<Rightarrow> am
      | DumpFailed \<Rightarrow> am\<lparr>aliases_file := Some Damaged\<rparr>)"

definition add_alias ::
  "write_outcome \<Rightarrow> pystr \<Rightarrow> pystr \<Rightarrow> alias_manager \<Rightarrow> bool \<times> alias_manager" where
  "add_alias wo name command am =
     (if name \<in> set [S ''alias'', S ''unalias''] then (False, am)
      else (True, save_aliases wo (am\<lparr>aliases := (aliases am)(name \<mapsto> command)\<rparr>)))"

definition remove_alias ::
  "write_outcome \<Rightarrow> pystr \<Rightarrow> alias_manager \<Rightarrow> bool \<times> alias_manager" where
  "remove_alias wo name am =
     (if aliases am name \<noteq> None then
        (True, save_aliases wo (am\<lparr>aliases := (aliases am)(name := None)\<rparr>))
      else (False, am))"

text \<open>
  \<open>s.split(maxsplit=1)\<close> with no separator given: leading whitespace is skipped, the first
  word runs to the next whitespace, and what follows that whitespace, if anything, is the
  second part, as it is.
\<close>

definition split_maxsplit1 :: "pystr \<Rightarrow> pystr list" where
  "split_maxsplit1 s =
     (let s1 = dropWhile isspace s in
      if s1 = [] then []
      else
        let word = takeWhile (\<lambda>c. \<not> isspace c) s1;
            remainder = dropWhile isspace (dropWhile (\<lambda>c. \<not> isspace c) s1)
        in if remainder = [] then [word] else [word, remainder])"

definition expand_alias :: "alias_manager \<Rightarrow> pystr \<Rightarrow> pystr" where
  "expand_alias am command =
     (let parts = split_maxsplit1 (strip command) in
      if parts = [] then command
      else
        let cmd_name = hd parts in
        (case aliases am cmd_name of
           Some alias_command \<Rightarrow>
             if length parts > 1 then alias_command @ S '' '' @ parts ! 1 else alias_command
         | None \<Rightarrow> command))"

subsection \<open>Predicates for the statements about the expansion\<close>

text \<open>
  A string of white space only (possibly empty); a word, with no white space in it; a
  string that begins and ends with a character that is not white space.
\<close>

definition blank :: "pystr \<Rightarrow> bool" where
  "blank s \<longleftrightarrow> (\<forall>c\<in>set s. isspace c)"

definition word :: "pystr \<Rightarrow> bool" where
  "word s \<longleftrightarrow> s \<noteq> [] \<and> (\<forall>c\<in>set s. \<not> isspace c)"

definition trimmed :: "pystr \<Rightarrow> bool" where
  "trimmed s \<longleftrightarrow> s \<noteq> [] \<and> \<not> isspace (hd s) \<and> \<not> isspace (last s)"

text \<open>A table in which the replacement of \<open>ll\<close> begins with another alias.\<close>

definition chained :: alias_manager where
  "chained = \<lparr>aliases = [S ''ll'' \<mapsto> S ''ls -la'', S ''ls'' \<mapsto> S ''dir''], aliases_file = None\<rparr>"

section \<open>ParameterSystem: the argument classifier\<close>

subsection \<open>The operating system, as far as the classifier asks it\<close>

text \<open>
  \<open>stat\<close> is what \<open>os.stat\<close> finds at a path (\<open>None\<close>: nothing there, so \<open>os.path.exists\<close>
  is false); \<open>access_x\<close> is \<open>os.access(path, os.X_OK)\<close>; \<open>os_name\<close> is \<open>os.name\<close>, which also
  selects the flavour of \<open>os.path\<close>.
\<close>

datatype ftype = Directory | RegularFile | OtherFile

datatype os_kind = Posix | Nt

record os_env =
  stat :: "pystr \<Rightarrow> ftype option"
  access_x :: "pystr \<Rightarrow> bool"
  os_name :: os_kind

definition path_exists :: "os_env \<Rightarrow> pystr \<Rightarrow> bool" where
  "path_exists env p \<longleftrightarrow> stat env p \<noteq> None"

definition isdir :: "os_env \<Rightarrow> pystr \<Rightarrow> bool" where
  "isdir env p \<longleftrightarrow> stat env p = Some Directory"

definition isfile :: "os_env \<Rightarrow> pystr \<Rightarrow> bool" where
  "isfile env p \<longleftrightarrow> stat env p = Some RegularFile"

subsection \<open>String helpers of Python\<close>

definition startswith :: "pystr \<Rightarrow> pystr \<Rightarrow> bool" where
  "startswith s pre \<longleftrightarrow> take (length pre) s = pre"

definition endswith :: "pystr \<Rightarrow> pystr \<Rightarrow> bool" where
  "endswith s suf \<longleftrightarrow> length suf \<le> length s \<and> drop (length s - length suf) s = suf"

text \<open>\<open>s.startswith(('-', '/'))\<close>.\<close>

definition starts_dash_or_slash :: "pystr \<Rightarrow> bool" where
  "starts_dash_or_slash s \<longleftrightarrow> startswith s (S ''-'') \<or> startswith s (S ''/'')"

text \<open>\<open>s.rfind(c)\<close> for one character: the last index of \<open>c\<close>, or \<open>-1\<close>.\<close>

definition rfind :: "pystr \<Rightarrow> nat \<Rightarrow> int" where
  "rfind s c = foldl (\<lambda>r (i, x). if x = c then int i else r) (- 1) (enumerate 0 s)"

text \<open>
  \<open>os.path.splitext\<close> (CPython's \<open>genericpath._splitext\<close>): \<open>posixpath\<close> calls it with the
  separator \<open>/\<close> and no alternative separator, \<open>ntpath\<close> with the separator \<open>\\<close> and the
  alternative \<open>/\<close>. The extension starts at the last dot, when that dot comes after the
  last separator and some character between the two is not a dot.
\<close>

definition splitext :: "os_kind \<Rightarrow> pystr \<Rightarrow> pystr \<times> pystr" where
  "splitext os p =
     (let sepIndex = (case os of Posix \<Rightarrow> rfind p SLASH
                               | Nt \<Rightarrow> max (rfind p BACKSLASH) (rfind p SLASH));
          dotIndex = rfind p DOT
      in if dotIndex > sepIndex \<and>
            list_ex (\<lambda>k. p ! k \<noteq> DOT) [nat (sepIndex + 1)..<nat dotIndex]
         then (take (nat dotIndex) p, drop (nat dotIndex) p)
         else (p, []))"

text \<open>
  \<open>str.lower()\<close> on the letters \<open>A\<close> to \<open>Z\<close>. Python also lowers letters beyond ASCII; the
  only such letter whose lower case is an ASCII letter is U+212A (to \<open>k\<close>), and no
  extension of the allow-set has a \<open>k\<close>, so membership of the lowered extension in the
  allow-set is the same.
\<close>

definition lower :: "pystr \<Rightarrow> pystr" where
  "lower s = map (\<lambda>c. if 65 \<le> c \<and> c \<le> 90 then c + 32 else c) s"

subsection \<open>\<open>_is_executable\<close>\<close>

definition executable_exts :: "pystr list" where
  "executable_exts = [S ''.exe'', S ''.bat'', S ''.cmd'', S ''.sh'', S ''.py'', S ''.app'']"

definition is_executable :: "os_env \<Rightarrow> pystr \<Rightarrow> bool" where
  "is_executable env file_path =
     (if \<not> path_exists env file_path then False
      else
        let ext = lower (snd (splitext (os_name env) file_path)) in
        if ext \<in> set executable_exts then True
        else if os_name env = Posix then access_x env file_path
        else False)"

subsection \<open>\<open>parse_args\<close>\<close>

text \<open>The value of a plain option: \<open>True\<close> or the token that follows it.\<close>

datatype optval = OptTrue | OptStr pystr

text \<open>
  The dictionary that \<open>parse_args\<close> returns. \<open>options\<close> is a Python \<open>dict\<close>: an association
  list in insertion order, where storing under a key that is present replaces the value in
  place (\<open>AList.update\<close>).
\<close>

record parsed_args =
  commands :: "(pystr \<times> pystr option) list"
  files :: "pystr list"
  directories :: "pystr list"
  executables :: "pystr list"
  options :: "(pystr \<times> optval) list"
  scripts :: "pystr list"

definition empty_result :: parsed_args where
  "empty_result = \<lparr>commands = [], files = [], directories = [], executables = [],
                    options = [], scripts = []\<rparr>"

text \<open>
  The body of the \<open>while i < len(args)\<close> loop up to, and without, the final \<open>i += 1\<close>: it
  returns the index (advanced by one when the next token was taken as a value) and the
  updated result.
\<close>

definition parse_step :: "os_env \<Rightarrow> pystr list \<Rightarrow> nat \<Rightarrow> parsed_args \<Rightarrow> nat \<times> parsed_args" where
  "parse_step env args i result =
     (let arg = args ! i in
      if startswith arg (S ''/'') then
        (let cmd = drop 1 arg in
         if i + 1 < length args \<and> \<not> starts_dash_or_slash (args ! (i + 1)) then
           (i + 1, result\<lparr>commands := commands result @ [(cmd, Some (args ! (i + 1)))]\<rparr>)
         else (i, result\<lparr>commands := commands result @ [(cmd, None)]\<rparr>))
      else if startswith arg (S ''-'') then
        (if i + 1 < length args \<and> \<not> starts_dash_or_slash (args ! (i + 1)) then
           (i + 1, result\<lparr>options := AList.update arg (OptStr (args ! (i + 1))) (options result)\<rparr>)
         else (i, result\<lparr>options := AList.update arg OptTrue (options result)\<rparr>))
      else if endswith arg (S ''.zetas'') then
        (i, result\<lparr>scripts := scripts result @ [arg]\<rparr>)
      else if isdir env arg then
        (i, result\<lparr>directories := directories result @ [arg]\<rparr>)
      else if isfile env arg then
        (if is_executable env arg then (i, result\<lparr>executables := executables result @ [arg]\<rparr>)
         else (i, result\<lparr>files := files result @ [arg]\<rparr>))
      else
        (if is_executable env arg then (i, result\<lparr>executables := executables result @ [arg]\<rparr>)
         else (i, result\<lparr>files := files result @ [arg]\<rparr>)))"

lemma parse_step_index:
  "fst (parse_step env args i result) = i \<or> fst (parse_step env args i result) = i + 1"
  by (simp add: parse_step_def Let_def)

function parse_loop :: "os_env \<Rightarrow> pystr list \<Rightarrow> nat \<Rightarrow> parsed_args \<Rightarrow> parsed_args" where
  "parse_loop env args i result =
     (if i < length args then
        parse_loop env args (fst (parse_step env args i result) + 1)
          (snd (parse_step env args i result))
      else result)"
  by pat_completeness auto
termination
proof (relation "measure (\<lambda>(env, args, i, result). length args - i)")
  show "wf (measure (\<lambda>(env, args, i, result). length args - i))" by simp
next
  fix env :: os_env and args :: "pystr list" and i :: nat and result :: parsed_args
  assume "i < length args"
  then show "((env, args, fst (parse_step env args i result) + 1,
               snd (parse_step env args i result)), (env, args, i, result))
             \<in> measure (\<lambda>(env, args, i, result). length args - i)"
    using parse_step_index[of env args i result] by auto
qed

definition parse_args :: "os_env \<Rightarrow> pystr list \<Rightarrow> parsed_args" where
  "parse_args env args = parse_loop env args 0 empty_result"

text \<open>
  For the statements about \<open>parse_args\<close>: the value that the flag token at index \<open>k\<close> gets
  (the next token, when there is one and it starts with neither \<open>-\<close> nor \<open>/\<close>); whether the
  token at \<open>k\<close> is taken as such a value; and whether it is classified on its own as a
  path. \<open>token_effect\<close> is what the token at \<open>k\<close> does to the result.
\<close>

definition value_at :: "pystr list \<Rightarrow> nat \<Rightarrow> pystr option" where
  "value_at args k =
     (if k + 1 < length args \<and> \<not> starts_dash_or_slash (args ! (k + 1))
      then Some (args ! (k + 1)) else None)"

definition consumed :: "pystr list \<Rightarrow> nat \<Rightarrow> bool" where
  "consumed args k \<longleftrightarrow>
     0 < k \<and> k < length args \<and> starts_dash_or_slash (args ! (k - 1)) \<and>
     \<not> starts_dash_or_slash (args ! k)"

definition own_token :: "pystr list \<Rightarrow> nat \<Rightarrow> bool" where
  "own_token args k \<longleftrightarrow> \<not> starts_dash_or_slash (args ! k) \<and> \<not> consumed args k"

definition token_effect :: "os_env \<Rightarrow> pystr list \<Rightarrow> parsed_args \<Rightarrow> nat \<Rightarrow> parsed_args" where
  "token_effect env args r k = (if consumed args k then r else snd (parse_step env args k r))"

text \<open>An operating system in which no path exists.\<close>

definition no_files :: os_env where
  "no_files = \<lparr>stat = (\<lambda>p. None), access_x = (\<lambda>p. False), os_name = Posix\<rparr>"

section \<open>ParameterSystem: the priority executor\<close>

text \<open>
  What a handler call does. It returns: a boolean, or Python's \<open>None\<close> (so \<open>_color_command\<close>
  for a code of two characters outside the colour table). Or it raises an \<open>Exception\<close> whose
  text (\<open>str(e)\<close>) is the string. Or it does not come back to the loop: an exception that is
  not an \<open>Exception\<close> (\<open>SystemExit\<close>, \<open>KeyboardInterrupt\<close>; the code that \<open>/p\<close> executes can
  raise \<open>SystemExit\<close>) passes through \<open>except Exception\<close>, and a call may never return.
  Either way the call may have changed the world.
\<close>

datatype abort = BaseExc pystr | NoReturn

datatype outcome = Returns "bool option" | Raises pystr | Aborts abort

datatype cfgval = CfgStr pystr | CfgBool bool

text \<open>An element of a bucket: a pair \<open>(cmd, arg)\<close> of \<open>commands\<close>, or a path string.\<close>

datatype item = CommandItem pystr "pystr option" | PathItem pystr

text \<open>
  The collaborators of \<open>execute_in_order\<close>, over a world \<open>'w\<close> (the file system, the
  terminal, the configuration, \<open>script_state\<close>): the five handler methods, \<open>config.set\<close>
  (which catches the exceptions of its own write), and Python's \<open>repr\<close> of a string, which
  formats the elements of a tuple.
\<close>

record 'w handlers =
  execute_command :: "pystr \<Rightarrow> pystr option \<Rightarrow> 'w \<Rightarrow> outcome \<times> 'w"
  execute_script :: "pystr \<Rightarrow> (pystr \<times> optval) list \<Rightarrow> 'w \<Rightarrow> outcome \<times> 'w"
  process_file :: "pystr \<Rightarrow> (pystr \<times> optval) list \<Rightarrow> 'w \<Rightarrow> outcome \<times> 'w"
  process_directory :: "pystr \<Rightarrow> (pystr \<times> optval) list \<Rightarrow> 'w \<Rightarrow> outcome \<times> 'w"
  execute_program :: "pystr \<Rightarrow> (pystr \<times> optval) list \<Rightarrow> 'w \<Rightarrow> outcome \<times> 'w"
  config_set :: "pystr \<Rightarrow> cfgval \<Rightarrow> 'w \<Rightarrow> 'w"
  repr_str :: "pystr \<Rightarrow> pystr"

datatype 'w handler =
    CommandHandler "pystr \<Rightarrow> pystr option \<Rightarrow> 'w \<Rightarrow> outcome \<times> 'w"
  | PathHandler "pystr \<Rightarrow> (pystr \<times> optval) list \<Rightarrow> 'w \<Rightarrow> outcome \<times> 'w"

definition execution_sequence :: "'w handlers \<Rightarrow> (string \<times> 'w handler) list" where
  "execution_sequence H =
     [(''commands'', CommandHandler (execute_command H)),
      (''scripts'', PathHandler (execute_script H)),
      (''files'', PathHandler (process_file H)),
      (''directories'', PathHandler (process_directory H)),
      (''executables'', PathHandler (execute_program H))]"

text \<open>\<open>parsed_args.get(category, [])\<close>.\<close>

definition get_items :: "parsed_args \<Rightarrow> string \<Rightarrow> item list" where
  "get_items parsed category =
     (if category = ''commands'' then map (\<lambda>(cmd, arg). CommandItem cmd arg) (commands parsed)
      else if category = ''scripts'' then map PathItem (scripts parsed)
      else if category = ''files'' then map PathItem (files parsed)
      else if category = ''directories'' then map PathItem (directories parsed)
      else if category = ''executables'' then map PathItem (executables parsed)
      else [])"

text \<open>
  The call inside \<open>try\<close>. An item or a handler of the wrong shape for the category makes
  Python raise inside the \<open>try\<close>; this does not happen for the five categories and their
  buckets.
\<close>

definition call_handler ::
  "string \<Rightarrow> 'w handler \<Rightarrow> item \<Rightarrow> (pystr \<times> optval) list \<Rightarrow> 'w \<Rightarrow> outcome \<times> 'w" where
  "call_handler category handler item opts w =
     (if category = ''commands'' then
        (case (item, handler) of
           (CommandItem cmd arg, CommandHandler h) \<Rightarrow> h cmd arg w
         | _ \<Rightarrow> (Raises (S ''TypeError''), w))
      else
        (case (item, handler) of
           (PathItem p, PathHandler h) \<Rightarrow> h p opts w
         | _ \<Rightarrow> (Raises (S ''TypeError''), w)))"

text \<open>
  The labels. The source's literals beyond ASCII are written by their code points:
  U+547D U+4EE4 in the label of a command, U+9519 U+8BEF in front of the text of an
  exception, and the two labels of the options.
\<close>

definition str_item :: "'w handlers \<Rightarrow> item \<Rightarrow> pystr" where
  "str_item H item =
     (case item of
        PathItem p \<Rightarrow> p
      | CommandItem cmd arg \<Rightarrow>
          S ''('' @ repr_str H cmd @ S '', '' @
          (case arg of None \<Rightarrow> S ''None'' | Some a \<Rightarrow> repr_str H a) @ S '')'')"

definition success_label :: "string \<Rightarrow> item \<Rightarrow> pystr" where
  "success_label category item =
     (case item of
        CommandItem cmd arg \<Rightarrow>
          [0x547D, 0x4EE4] @ S '': /'' @ cmd @ S '' '' @ (case arg of None \<Rightarrow> [] | Some a \<Rightarrow> a)
      | PathItem p \<Rightarrow> S (butlast category) @ S '': '' @ p)"

definition error_label :: "'w handlers \<Rightarrow> string \<Rightarrow> item \<Rightarrow> pystr \<Rightarrow> pystr" where
  "error_label H category item e =
     S (butlast category) @ S '': '' @ str_item H item @ S '' - '' @ [0x9519, 0x8BEF] @
     S '': '' @ e"

definition console_label :: pystr where
  "console_label = [0x9009, 0x9879] @ S '': '' @
     [0x5207, 0x6362, 0x5230, 0x63A7, 0x5236, 0x53F0, 0x754C, 0x9762]"

definition bash_label :: pystr where
  "bash_label = [0x9009, 0x9879] @ S '': '' @ [0x542F, 0x7528] @ S ''Bash'' @ [0x8BED, 0x6CD5]"

text \<open>
  What one call appends to \<open>results\<close>: \<open>(label, success)\<close> with the value that the handler
  returned, or the label of the exception with \<open>False\<close>; nothing when the call does not come
  back.
\<close>

definition result_of ::
  "'w handlers \<Rightarrow> string \<Rightarrow> item \<Rightarrow> outcome \<Rightarrow> (pystr \<times> bool option) list" where
  "result_of H category item out =
     (case out of
        Returns success \<Rightarrow> [(success_label category item, success)]
      | Raises e \<Rightarrow> [(error_label H category item e, Some False)]
      | Aborts x \<Rightarrow> [])"

text \<open>
  The state of a run of \<open>execute_in_order\<close>: \<open>Normal results w\<close> while the loops go on, with
  the results so far (at the end: the list that is returned); \<open>Abrupt x w\<close> once a call did
  not come back: the method is left without a list, and nothing more is executed.
\<close>

datatype 'w run = Normal "(pystr \<times> bool option) list" 'w | Abrupt abort 'w

text \<open>The body of the inner loop \<open>for item in items\<close>: the \<open>try\<close> with its \<open>except\<close>.\<close>

definition execute_item ::
  "'w handlers \<Rightarrow> parsed_args \<Rightarrow> string \<Rightarrow> 'w handler \<Rightarrow> 'w run \<Rightarrow> item \<Rightarrow> 'w run" where
  "execute_item H parsed category handler acc item =
     (case acc of
        Abrupt x w \<Rightarrow> Abrupt x w
      | Normal results w \<Rightarrow>
          (case call_handler category handler item (options parsed) w of
             (out, w') \<Rightarrow>
               (case out of
                  Aborts x \<Rightarrow> Abrupt x w'
                | _ \<Rightarrow> Normal (results @ result_of H category item out) w')))"

text \<open>The body of the last loop, over \<open>parsed_args['options'].items()\<close>.\<close>

definition apply_option :: "'w handlers \<Rightarrow> 'w run \<Rightarrow> pystr \<times> optval \<Rightarrow> 'w run" where
  "apply_option H acc ov =
     (case acc of
        Abrupt x w \<Rightarrow> Abrupt x w
      | Normal results w \<Rightarrow>
          (case ov of (option, value) \<Rightarrow>
             if option = S ''-console'' then
               Normal (results @ [(console_label, Some True)])
                 (config_set H (S ''interface_mode'') (CfgStr (S ''console'')) w)
             else if option = S ''-bash'' then
               Normal (results @ [(bash_label, Some True)])
                 (config_set H (S ''enable_bash_syntax'') (CfgBool True) w)
             else Normal results w))"

definition execute_in_order :: "'w handlers \<Rightarrow> parsed_args \<Rightarrow> 'w \<Rightarrow> 'w run" where
  "execute_in_order H parsed w =
     (let acc = foldl (\<lambda>acc (category, handler).
                         foldl (execute_item H parsed category handler) acc
                           (get_items parsed category))
                  (Normal [] w) (execution_sequence H)
      in foldl (apply_option H) acc (options parsed))"

text \<open>Whether the run returned, the list it returned, and the world it left.\<close>

definition returned :: "'w run \<Rightarrow> bool" where
  "returned R = (case R of Normal results w \<Rightarrow> True | Abrupt x w \<Rightarrow> False)"

definition results_of :: "'w run \<Rightarrow> (pystr \<times> bool option) list" where
  "results_of R = (case R of Normal results w \<Rightarrow> results | Abrupt x w \<Rightarrow> [])"

definition world_of :: "'w run \<Rightarrow> 'w" where
  "world_of R = (case R of Normal results w \<Rightarrow> w | Abrupt x w \<Rightarrow> w)"

subsection \<open>Recording the calls\<close>

text \<open>
  To speak about the order of the calls, the collaborators are wrapped so that each call
  that \<open>execute_in_order\<close> makes is appended to a log kept beside the world: a handler call
  with its category, item and outcome, or a \<open>config.set\<close> with its key and value.
\<close>

datatype event = Dispatched string item outcome | ConfigSet pystr cfgval

definition traced_command ::
  "(pystr \<Rightarrow> pystr option \<Rightarrow> 'w \<Rightarrow> outcome \<times> 'w) \<Rightarrow>
   pystr \<Rightarrow> pystr option \<Rightarrow> 'w \<times> event list \<Rightarrow> outcome \<times> 'w \<times> event list" where
  "traced_command h cmd arg wl =
     (case wl of (w, log) \<Rightarrow>
        (case h cmd arg w of
           (out, w') \<Rightarrow> (out, w', log @ [Dispatched ''commands'' (CommandItem cmd arg) out])))"

definition traced_path ::
  "string \<Rightarrow> (pystr \<Rightarrow> (pystr \<times> optval) list \<Rightarrow> 'w \<Rightarrow> outcome \<times> 'w) \<Rightarrow>
   pystr \<Rightarrow> (pystr \<times> optval) list \<Rightarrow> 'w \<times> event list \<Rightarrow> outcome \<times> 'w \<times> event list" where
  "traced_path category h p opts wl =
     (case wl of (w, log) \<Rightarrow>
        (case h p opts w of
           (out, w') \<Rightarrow> (out, w', log @ [Dispatched category (PathItem p) out])))"

definition traced :: "'w handlers \<Rightarrow> ('w \<times> event list) handlers" where
  "traced H =
     \<lparr>execute_command = traced_command (execute_command H),
      execute_script = traced_path ''scripts'' (execute_script H),
      process_file = traced_path ''files'' (process_file H),
      process_directory = traced_path ''directories'' (process_directory H),
      execute_program = traced_path ''executables'' (execute_program H),
      config_set = (\<lambda>key v wl. case wl of (w, log) \<Rightarrow> (config_set H key v w, log @ [ConfigSet key v])),
      repr_str = repr_str H\<rparr>"

text \<open>The log of a recorded run, and the run without its log.\<close>

definition log_of :: "('w \<times> event list) run \<Rightarrow> event list" where
  "log_of R = snd (world_of R)"

definition forget_log :: "('w \<times> event list) run \<Rightarrow> 'w run" where
  "forget_log R = (case R of Normal results wl \<Rightarrow> Normal results (fst wl)
                           | Abrupt x wl \<Rightarrow> Abrupt x (fst wl))"

definition with_log :: "event list \<Rightarrow> 'w run \<Rightarrow> ('w \<times> event list) run" where
  "with_log log R = (case R of Normal results w \<Rightarrow> Normal results (w, log)
                            | Abrupt x w \<Rightarrow> Abrupt x (w, log))"

text \<open>A logged call that did not come back, and what the run is left by after it.\<close>

definition aborting :: "event \<Rightarrow> bool" where
  "aborting ev = (case ev of Dispatched category item (Aborts x) \<Rightarrow> True | _ \<Rightarrow> False)"

definition left_by :: "event \<Rightarrow> abort option" where
  "left_by ev = (case ev of Dispatched category item (Aborts x) \<Rightarrow> Some x | _ \<Rightarrow> None)"

text \<open>Handlers that always come back: they return or raise an \<open>Exception\<close>.\<close>

definition never_aborts :: "'w handlers \<Rightarrow> bool" where
  "never_aborts H \<longleftrightarrow>
     (\<forall>cmd arg w x. fst (execute_command H cmd arg w) \<noteq> Aborts x) \<and>
     (\<forall>p opts w x. fst (execute_script H p opts w) \<noteq> Aborts x) \<and>
     (\<forall>p opts w x. fst (process_file H p opts w) \<noteq> Aborts x) \<and>
     (\<forall>p opts w x. fst (process_directory H p opts w) \<noteq> Aborts x) \<and>
     (\<forall>p opts w x. fst (execute_program H p opts w) \<noteq> Aborts x)"

text \<open>The calls in the order the specification gives, without their outcomes.\<close>

datatype call = Call string item | SetConfig pystr cfgval

definition call_of :: "event \<Rightarrow> call" where
  "call_of ev = (case ev of Dispatched category item out \<Rightarrow> Call category item
                          | ConfigSet key v \<Rightarrow> SetConfig key v)"

definition option_calls :: "(pystr \<times> optval) list \<Rightarrow> call list" where
  "option_calls opts =
     concat (map (\<lambda>(option, value).
        if option = S ''-console'' then [SetConfig (S ''interface_mode'') (CfgStr (S ''console''))]
        else if option = S ''-bash'' then [SetConfig (S ''enable_bash_syntax'') (CfgBool True)]
        else []) opts)"

definition dispatch_order :: "parsed_args \<Rightarrow> call list" where
  "dispatch_order parsed =
     map (\<lambda>(cmd, arg). Call ''commands'' (CommandItem cmd arg)) (commands parsed) @
     map (\<lambda>p. Call ''scripts'' (PathItem p)) (scripts parsed) @
     map (\<lambda>p. Call ''files'' (PathItem p)) (files parsed) @
     map (\<lambda>p. Call ''directories'' (PathItem p)) (directories parsed) @
     map (\<lambda>p. Call ''executables'' (PathItem p)) (executables parsed)"

text \<open>
  What the last loop logs and appends for a dictionary of options, and the results that a
  log of handler calls stands for.
\<close>

definition option_events :: "(pystr \<times> optval) list \<Rightarrow> event list" where
  "option_events opts =
     concat (map (\<lambda>(option, value).
        if option = S ''-console'' then [ConfigSet (S ''interface_mode'') (CfgStr (S ''console''))]
        else if option = S ''-bash'' then [ConfigSet (S ''enable_bash_syntax'') (CfgBool True)]
        else []) opts)"

definition option_results :: "(pystr \<times> optval) list \<Rightarrow> (pystr \<times> bool option) list" where
  "option_results opts =
     concat (map (\<lambda>(option, value).
        if option = S ''-console'' then [(console_label, Some True)]
        else if option = S ''-bash'' then [(bash_label, Some True)]
        else []) opts)"

definition dispatch_results :: "'w handlers \<Rightarrow> event list \<Rightarrow> (pystr \<times> bool option) list" where
  "dispatch_results H log =
     concat (map (\<lambda>ev. case ev of Dispatched category item out \<Rightarrow> result_of H category item out
                               | ConfigSet key v \<Rightarrow> []) log)"

text \<open>
  The two loops over the categories and their items as one list of steps, the recording
  wrapper of one handler, and the log of running a list of steps from a world.
\<close>

definition flat_steps :: "'w handlers \<Rightarrow> parsed_args \<Rightarrow> (string \<times> 'w handler \<times> item) list" where
  "flat_steps H parsed =
     concat (map (\<lambda>(category, handler).
                    map (\<lambda>item. (category, handler, item)) (get_items parsed category))
               (execution_sequence H))"

definition traced_handler :: "string \<Rightarrow> 'w handler \<Rightarrow> ('w \<times> event list) handler" where
  "traced_handler category handler =
     (case handler of
        CommandHandler h \<Rightarrow> CommandHandler (traced_command h)
      | PathHandler h \<Rightarrow> PathHandler (traced_path category h))"

definition shaped :: "string \<times> 'w handler \<times> item \<Rightarrow> bool" where
  "shaped step =
     (case step of
        (category, CommandHandler h, CommandItem cmd arg) \<Rightarrow> category = ''commands''
      | (category, PathHandler h, PathItem p) \<Rightarrow> category \<noteq> ''commands''
      | _ \<Rightarrow> False)"

definition run_steps ::
  "'w handlers \<Rightarrow> parsed_args \<Rightarrow> 'w run \<Rightarrow> (string \<times> 'w handler \<times> item) list \<Rightarrow> 'w run" where
  "run_steps H parsed acc steps =
     foldl (\<lambda>acc (category, handler, item). execute_item H parsed category handler acc item)
       acc steps"

fun events_of ::
  "parsed_args \<Rightarrow> (string \<times> 'w handler \<times> item) list \<Rightarrow> 'w \<Rightarrow> event list" where
  "events_of parsed [] w = []"
| "events_of parsed ((category, handler, item) # steps) w =
     (case call_handler category handler item (options parsed) w of
        (out, w') \<Rightarrow>
          Dispatched category item out #
          (case out of Aborts x \<Rightarrow> [] | _ \<Rightarrow> events_of parsed steps w'))"

subsection \<open>Concrete runs\<close>

text \<open>
  Handlers over a world with nothing in it: the script handler raises, the file handler
  reports failure, the others succeed. \<open>repr\<close> puts a string between single quotes. In
  \<open>exiting_handlers\<close> the command handler leaves by \<open>SystemExit\<close>, as \<open>/p\<close> does for the code
  \<open>raise SystemExit\<close>.
\<close>

definition demo_handlers :: "unit handlers" where
  "demo_handlers =
     \<lparr>execute_command = (\<lambda>cmd arg w. (Returns (Some True), w)),
      execute_script = (\<lambda>p opts w. (Raises (S ''boom''), w)),
      process_file = (\<lambda>p opts w. (Returns (Some False), w)),
      process_directory = (\<lambda>p opts w. (Returns (Some True), w)),
      execute_program = (\<lambda>p opts w. (Returns (Some True), w)),
      config_set = (\<lambda>key v w. w),
      repr_str = (\<lambda>s. [SQUOTE] @ s @ [SQUOTE])\<rparr>"

definition exiting_handlers :: "unit handlers" where
  "exiting_handlers =
     demo_handlers\<lparr>execute_command := (\<lambda>cmd arg w. (Aborts (BaseExc (S ''SystemExit'')), w))\<rparr>"

definition demo_parsed :: parsed_args where
  "demo_parsed =
     \<lparr>commands = [(S ''p'', Some (S ''1+1''))], files = [S ''notes.txt''], directories = [],
      executables = [S ''run.sh''], options = [(S ''-v'', OptTrue), (S ''-bash'', OptTrue)],
      scripts = [S ''a.zetas'']\<rparr>"

definition options_only :: parsed_args where
  "options_only =
     empty_result\<lparr>options := [(S ''-console'', OptTrue), (S ''-x'', OptTrue), (S ''-y'', OptTrue)]\<rparr>"

section \<open>Properties of the splitter\<close>

subsection \<open>Trimming\<close>

lemma dropWhile_keeps_last:
  "s \<noteq> [] \<Longrightarrow> \<not> P (last s) \<Longrightarrow> dropWhile P s \<noteq> [] \<and> last (dropWhile P s) = last s"
  by (induction s) (auto split: if_splits)

lemma dropWhile_append_stop:
  "b \<noteq> [] \<Longrightarrow> \<not> P (hd b) \<Longrightarrow> dropWhile P (a @ b) = dropWhile P a @ b"
  by (induction a) (auto simp: neq_Nil_conv)

lemma lstrip_append_stop:
  "b \<noteq> [] \<Longrightarrow> \<not> isspace (hd b) \<Longrightarrow> lstrip (a @ b) = lstrip a @ b"
  unfolding lstrip_def by (rule dropWhile_append_stop)

lemma rstrip_append_stop:
  assumes "a \<noteq> []" "\<not> isspace (last a)"
  shows "rstrip (a @ b) = a @ rstrip b"
proof -
  have "dropWhile isspace (rev b @ rev a) = dropWhile isspace (rev b) @ rev a"
    using assms by (intro dropWhile_append_stop) (simp_all add: hd_rev)
  then show ?thesis by (simp add: rstrip_def)
qed

lemma rstrip_nonspace_last:
  assumes "s \<noteq> []" "\<not> isspace (last s)"
  shows "rstrip s = s"
  using assms by (cases s rule: rev_cases) (simp_all add: rstrip_def)

lemma strip_keeps_last:
  assumes "s \<noteq> []" "\<not> isspace (last s)"
  shows "strip s = lstrip s \<and> strip s \<noteq> [] \<and> last (strip s) = last s"
proof -
  have a: "lstrip s \<noteq> [] \<and> last (lstrip s) = last s"
    unfolding lstrip_def using assms by (rule dropWhile_keeps_last)
  then have "rstrip (lstrip s) = lstrip s"
    using assms(2) by (intro rstrip_nonspace_last) auto
  then show ?thesis using a by (simp add: strip_def)
qed

lemma strip_around_core:
  assumes "m \<noteq> []" "\<not> isspace (hd m)" "\<not> isspace (last m)"
  shows "strip (a @ m @ b) = lstrip a @ m @ rstrip b"
proof -
  have "lstrip (a @ m @ b) = lstrip a @ (m @ b)"
    using assms by (intro lstrip_append_stop) simp_all
  moreover have "rstrip ((lstrip a @ m) @ b) = (lstrip a @ m) @ rstrip b"
    using assms by (intro rstrip_append_stop) simp_all
  ultimately show ?thesis by (simp add: strip_def)
qed

subsection \<open>The scanning loop\<close>

lemma scan_init_sel [simp]:
  "out_commands scan_init = []" "current_command scan_init = []" "\<not> in_quotes scan_init"
  "quote_char scan_init = None" "\<not> skip_next scan_init"
  by (simp_all add: scan_init_def)

lemma scan_outside_literal:
  "\<not> skip_next st \<Longrightarrow> \<not> in_quotes st \<Longrightarrow> plain u \<Longrightarrow>
   scan (u @ rest) st = scan rest (st\<lparr>current_command := current_command st @ u\<rparr>)"
  by (induction u arbitrary: st) (simp_all add: scan_step_def plain_def)



lemma scan_trailing_backslash:
  "current_command (scan (s @ [BACKSLASH]) st) \<noteq> [] \<and>
   last (current_command (scan (s @ [BACKSLASH]) st)) = BACKSLASH"
  by (induction s arbitrary: st) (simp_all add: scan_step_def)

lemma scan_plain: "plain s \<Longrightarrow> scan s scan_init = scan_init\<lparr>current_command := s\<rparr>"
  using scan_outside_literal[of scan_init s "[]"] by simp

lemma not_isspace_special [simp]:
  "\<not> isspace BACKSLASH" "\<not> isspace DQUOTE" "\<not> isspace SQUOTE"
  by (simp_all add: isspace_def)


subsection \<open>Escaped characters\<close>

text \<open>
  An unescaped backslash with a character \<open>c\<close> after it: the backslash is consumed and the
  pair is neither a separator nor a quote toggle, but \<open>c\<close> is appended once in the backslash
  branch and once more in the \<open>skip_next\<close> branch of the next iteration.
\<close>

lemma scan_escaped_pair:
  "\<not> skip_next st \<Longrightarrow>
   scan (BACKSLASH # c # rest) st =
   scan rest (st\<lparr>skip_next := False, current_command := current_command st @ [c, c]\<rparr>)"
  by (simp add: scan_step_def)

text \<open>
  Claim C1. A backslash followed by a character appends that character exactly once, and
  splitting the five characters \<open>a\+b\<close> yields \<open>["a+b"]\<close>. The code yields \<open>["a++b"]\<close> at
  this input: the escaped character is appended twice.
\<close>

theorem escaped_separator_doubled:
  "parse_commands (S ''a'' @ [BACKSLASH] @ S ''+b'') = [S ''a++b''] \<and>
   parse_commands (S ''a'' @ [BACKSLASH] @ S ''+b'') \<noteq> [S ''a+b'']"
  by (simp add: parse_commands_def S_def scan_init_def scan_step_def strip_def lstrip_def
      rstrip_def isspace_def)

subsection \<open>Empty segments\<close>

text \<open>
  A line with no separator, quote or backslash is one segment, trimmed; but the test
  \<open>if current_command:\<close> looks at the characters accumulated before the trim, so the
  result is the empty string, not nothing, when the line holds white space only.
\<close>

lemma parse_commands_plain:
  "plain s \<Longrightarrow> parse_commands s = (if s = [] then [] else [strip s])"
  by (simp add: parse_commands_def scan_plain)

text \<open>
  At a separator outside quotes, a segment for which no character was accumulated is
  dropped, and any other segment is emitted trimmed, also when the trim leaves nothing.
\<close>

lemma scan_step_separator:
  "\<not> skip_next st \<Longrightarrow> \<not> in_quotes st \<Longrightarrow>
   out_commands (scan_step PLUS rest st) =
     (if current_command st = [] then out_commands st
      else out_commands st @ [strip (current_command st)])"
  by (simp add: scan_step_def)

text \<open>
  Claim C2. The splitter never emits an empty sub-command, and a string with no separator,
  quote or backslash whose trim is empty splits to \<open>[]\<close>. The code emits the empty string for
  the white space between the separators of \<open>a+ +b\<close> and for the line of one blank, while
  it does drop the segment between the separators of \<open>a++b\<close>.
\<close>

theorem whitespace_segment_emitted:
  "parse_commands (S ''a+ +b'') = [S ''a'', [], S ''b''] \<and>
   parse_commands (S '' '') = [[]] \<and>
   parse_commands (S ''a++b'') = [S ''a'', S ''b'']"
  by (simp add: parse_commands_def S_def scan_init_def scan_step_def strip_def lstrip_def
      rstrip_def isspace_def)

subsection \<open>Quoted regions\<close>




subsection \<open>A backslash at the end of the line\<close>

text \<open>
  Claim C10. A backslash that is the last character of the line is kept: whatever comes
  before it, the last segment ends with that backslash; after plain text \<open>s\<close> the result is
  the single segment \<open>s\<close> (trimmed on the left) followed by the backslash, so \<open>a\\<close> splits
  to \<open>["a\"]\<close>.
\<close>

theorem trailing_backslash_retained:
  "parse_commands (s @ [BACKSLASH]) \<noteq> [] \<and>
   last (last (parse_commands (s @ [BACKSLASH]))) = BACKSLASH \<and>
   (plain s \<longrightarrow> parse_commands (s @ [BACKSLASH]) = [lstrip s @ [BACKSLASH]])"
proof (intro conjI impI)
  let ?cur = "current_command (scan (s @ [BACKSLASH]) scan_init)"
  have cur: "?cur \<noteq> [] \<and> last ?cur = BACKSLASH" by (rule scan_trailing_backslash)
  have "strip ?cur \<noteq> [] \<and> last (strip ?cur) = last ?cur"
    by (rule strip_keeps_last[THEN conjunct2]) (use cur in simp_all)
  then have st: "strip ?cur \<noteq> [] \<and> last (strip ?cur) = BACKSLASH"
    using cur by simp
  show "parse_commands (s @ [BACKSLASH]) \<noteq> []"
    using cur by (simp add: parse_commands_def Let_def)
  show "last (last (parse_commands (s @ [BACKSLASH]))) = BACKSLASH"
    using cur st by (simp add: parse_commands_def Let_def)
next
  assume p: "plain s"
  have "scan (s @ [BACKSLASH]) scan_init = scan [BACKSLASH] (scan_init\<lparr>current_command := s\<rparr>)"
    using p scan_outside_literal[of scan_init s "[BACKSLASH]"] by simp
  then have sc: "scan (s @ [BACKSLASH]) scan_init =
                 scan_init\<lparr>current_command := s @ [BACKSLASH]\<rparr>"
    by (simp add: scan_step_def)
  have "strip (s @ [BACKSLASH]) = lstrip (s @ [BACKSLASH])"
    by (rule strip_keeps_last[THEN conjunct1]) simp_all
  also have "\<dots> = lstrip s @ [BACKSLASH]"
    by (rule lstrip_append_stop) simp_all
  finally show "parse_commands (s @ [BACKSLASH]) = [lstrip s @ [BACKSLASH]]"
    by (simp add: parse_commands_def sc)
qed

theorem trailing_backslash_retained_witness:
  "plain (S ''a'') \<and> parse_commands (S ''a'' @ [BACKSLASH]) = [S ''a'' @ [BACKSLASH]]"
  using trailing_backslash_retained[of "S ''a''"]
  by (simp add: plain_def S_def lstrip_def isspace_def)


section \<open>Properties of the alias manager\<close>

text \<open>
  Claim C7. Registering an alias named \<open>alias\<close> or \<open>unalias\<close> reports failure and leaves the
  alias manager (the table and the file) as it was; and no registration, under any name,
  makes a reserved name a key of a table that had none.
\<close>

theorem add_alias_reserved_rejected:
  "(name = S ''alias'' \<or> name = S ''unalias'' \<longrightarrow>
      add_alias wo name command am = (False, am)) \<and>
   (S ''alias'' \<notin> dom (aliases am) \<and> S ''unalias'' \<notin> dom (aliases am) \<longrightarrow>
      S ''alias'' \<notin> dom (aliases (snd (add_alias wo name command am))) \<and>
      S ''unalias'' \<notin> dom (aliases (snd (add_alias wo name command am))))"
  by (auto simp: add_alias_def save_aliases_def split: write_outcome.splits)

theorem add_alias_reserved_rejected_witness:
  "add_alias Written (S ''alias'') (S ''ls'') \<lparr>aliases = [S ''ll'' \<mapsto> S ''ls -la''], aliases_file = None\<rparr>
     = (False, \<lparr>aliases = [S ''ll'' \<mapsto> S ''ls -la''], aliases_file = None\<rparr>) \<and>
   S ''alias'' \<notin> dom (aliases (snd (add_alias Written (S ''la'') (S ''ls -a'')
      \<lparr>aliases = [S ''ll'' \<mapsto> S ''ls -la''], aliases_file = None\<rparr>)))"
  using add_alias_reserved_rejected[of "S ''alias''" Written "S ''ls''"
      "\<lparr>aliases = [S ''ll'' \<mapsto> S ''ls -la''], aliases_file = None\<rparr>"]
    add_alias_reserved_rejected[of "S ''la''" Written "S ''ls -a''"
      "\<lparr>aliases = [S ''ll'' \<mapsto> S ''ls -la''], aliases_file = None\<rparr>"]
  by (simp add: S_def)

text \<open>
  Claim C4, as stated: expanding the result of an expansion again does not expand it
  further even when its leading token is itself a registered alias. With \<open>ll\<close> and \<open>ls\<close>
  both registered, the second application expands \<open>ls\<close>.
\<close>

theorem expand_alias_twice_expands_again:
  "expand_alias \<lparr>aliases = [S ''ll'' \<mapsto> S ''ls -la'', S ''ls'' \<mapsto> S ''dir''], aliases_file = None\<rparr>
     (S ''ll /tmp'') = S ''ls -la /tmp'' \<and>
   expand_alias \<lparr>aliases = [S ''ll'' \<mapsto> S ''ls -la'', S ''ls'' \<mapsto> S ''dir''], aliases_file = None\<rparr>
     (expand_alias \<lparr>aliases = [S ''ll'' \<mapsto> S ''ls -la'', S ''ls'' \<mapsto> S ''dir''], aliases_file = None\<rparr>
        (S ''ll /tmp'')) = S ''dir -la /tmp''"
  by (simp add: expand_alias_def split_maxsplit1_def strip_def lstrip_def rstrip_def
      isspace_def S_def)

subsection \<open>Splitting off the first word\<close>

lemma lstrip_blank: "blank a \<Longrightarrow> lstrip a = []"
  by (simp add: blank_def lstrip_def)

lemma rstrip_blank: "blank a \<Longrightarrow> rstrip a = []"
  by (simp add: blank_def rstrip_def)

lemma strip_blank: "blank a \<Longrightarrow> strip a = []"
  by (simp add: strip_def lstrip_blank rstrip_def)

lemma word_trimmed: "word n \<Longrightarrow> trimmed n"
  by (auto simp: word_def trimmed_def)

lemma strip_padded: "blank a \<Longrightarrow> trimmed m \<Longrightarrow> blank b \<Longrightarrow> strip (a @ m @ b) = m"
  using strip_around_core[of m a b] by (simp add: trimmed_def lstrip_blank rstrip_blank)

lemma split_maxsplit1_word: "word n \<Longrightarrow> split_maxsplit1 n = [n]"
proof -
  assume w: "word n"
  have ne: "n \<noteq> []" using w by (simp add: word_def)
  have f1: "dropWhile isspace n = n" using w by (cases n) (auto simp: word_def)
  have f2: "takeWhile (\<lambda>c. \<not> isspace c) n = n" using w by (simp add: word_def)
  have f3: "dropWhile (\<lambda>c. \<not> isspace c) n = []" using w by (simp add: word_def)
  show ?thesis
    unfolding split_maxsplit1_def Let_def f1 f2 f3 using ne by simp
qed

lemma split_maxsplit1_two:
  assumes "word n" "gap \<noteq> []" "blank gap" "trimmed t"
  shows "split_maxsplit1 (n @ gap @ t) = [n, t]"
proof -
  obtain g gs where g: "gap = g # gs" using assms(2) by (cases gap) auto
  have sg: "isspace g" using assms(3) g by (simp add: blank_def)
  obtain x xs where t: "t = x # xs" using assms(4) by (cases t) (auto simp: trimmed_def)
  have nx: "\<not> isspace x" using assms(4) t by (simp add: trimmed_def)
  have ne: "n @ gap @ t \<noteq> []" "t \<noteq> []" using t by simp_all
  have f1: "dropWhile isspace (n @ gap @ t) = n @ gap @ t"
    using assms(1) by (cases n) (auto simp: word_def)
  have f2: "takeWhile (\<lambda>c. \<not> isspace c) (n @ gap @ t) = n"
    using assms(1) sg by (simp add: word_def g)
  have f3: "dropWhile (\<lambda>c. \<not> isspace c) (n @ gap @ t) = gap @ t"
    using assms(1) sg by (simp add: word_def g)
  have f4: "dropWhile isspace (gap @ t) = t"
    using assms(3) nx by (simp add: blank_def t)
  show ?thesis
    unfolding split_maxsplit1_def Let_def f1 f2 f3 f4 using ne by simp
qed

lemma trimmed_join: "word n \<Longrightarrow> trimmed t \<Longrightarrow> trimmed (n @ gap @ t)"
  by (cases n) (auto simp: word_def trimmed_def)

text \<open>
  Claim C4, amended: one call of the expansion is exactly one hop, for every line and every
  table. A blank line is returned as it is. A line whose first word is not a key is returned
  as it is. When the first word is a key, the result is its replacement if nothing follows
  the word, and the replacement, one space and the rest of the line (trimmed) otherwise: the
  replacement is not looked up again in that call, whatever it begins with. So with \<open>ll\<close>
  registered as \<open>ls -la\<close>, expanding \<open>ll /tmp\<close> yields exactly \<open>ls -la /tmp\<close>; applying the
  operation to that result leaves it unchanged when \<open>ls\<close> is not registered, and replaces
  its leading \<open>ls\<close> by the replacement of \<open>ls\<close> when it is.
\<close>

theorem expand_alias_one_hop_per_call:
  "(blank a \<longrightarrow> expand_alias am a = a) \<and>
   (blank a \<and> word n \<and> blank b \<longrightarrow>
      expand_alias am (a @ n @ b) = (case aliases am n of Some r \<Rightarrow> r | None \<Rightarrow> a @ n @ b)) \<and>
   (blank a \<and> word n \<and> gap \<noteq> [] \<and> blank gap \<and> trimmed t \<and> blank b \<longrightarrow>
      expand_alias am (a @ n @ gap @ t @ b) =
        (case aliases am n of Some r \<Rightarrow> r @ S '' '' @ t | None \<Rightarrow> a @ n @ gap @ t @ b)) \<and>
   (aliases am (S ''ll'') = Some (S ''ls -la'') \<longrightarrow>
      expand_alias am (S ''ll /tmp'') = S ''ls -la /tmp'' \<and>
      expand_alias am (expand_alias am (S ''ll /tmp'')) =
        (case aliases am (S ''ls'') of
           None \<Rightarrow> S ''ls -la /tmp''
         | Some r \<Rightarrow> r @ S '' -la /tmp''))"
proof (intro conjI impI)
  assume "blank a"
  then show "expand_alias am a = a"
    by (simp add: expand_alias_def strip_blank split_maxsplit1_def)
next
  assume h: "blank a \<and> word n \<and> blank b"
  then have "strip (a @ n @ b) = n" by (simp add: strip_padded word_trimmed)
  then show "expand_alias am (a @ n @ b) =
             (case aliases am n of Some r \<Rightarrow> r | None \<Rightarrow> a @ n @ b)"
    using h by (simp add: expand_alias_def split_maxsplit1_word split: option.splits)
next
  assume h: "blank a \<and> word n \<and> gap \<noteq> [] \<and> blank gap \<and> trimmed t \<and> blank b"
  then have "strip (a @ (n @ gap @ t) @ b) = n @ gap @ t"
    by (intro strip_padded trimmed_join) simp_all
  then have "split_maxsplit1 (strip (a @ n @ gap @ t @ b)) = [n, t]"
    using h by (simp add: split_maxsplit1_two)
  then show "expand_alias am (a @ n @ gap @ t @ b) =
             (case aliases am n of Some r \<Rightarrow> r @ S '' '' @ t | None \<Rightarrow> a @ n @ gap @ t @ b)"
    by (simp add: expand_alias_def split: option.splits)
next
  assume "aliases am (S ''ll'') = Some (S ''ls -la'')"
  then show "expand_alias am (S ''ll /tmp'') = S ''ls -la /tmp''"
    by (simp add: expand_alias_def split_maxsplit1_def strip_def lstrip_def rstrip_def
        isspace_def S_def)
next
  assume "aliases am (S ''ll'') = Some (S ''ls -la'')"
  then show "expand_alias am (expand_alias am (S ''ll /tmp'')) =
        (case aliases am (S ''ls'') of
           None \<Rightarrow> S ''ls -la /tmp''
         | Some r \<Rightarrow> r @ S '' -la /tmp'')"
    by (simp add: expand_alias_def split_maxsplit1_def strip_def lstrip_def rstrip_def
        isspace_def S_def split: option.splits)
qed

theorem expand_alias_one_hop_per_call_witness:
  "expand_alias chained (S ''  '') = S ''  '' \<and>
   expand_alias chained (S ''ll'') = S ''ls -la'' \<and>
   expand_alias chained (S ''  ll   /tmp '') = S ''ls -la /tmp'' \<and>
   expand_alias chained (S ''cd /tmp'') = S ''cd /tmp'' \<and>
   expand_alias chained (S ''ll /tmp'') = S ''ls -la /tmp'' \<and>
   expand_alias chained (expand_alias chained (S ''ll /tmp'')) = S ''dir -la /tmp''"
  using expand_alias_one_hop_per_call[of "[]" chained "S ''ll''" "[]" "[]" "[]"]
    expand_alias_one_hop_per_call[of "S ''  ''" chained "S ''ll''" "S '' ''" "S ''   ''" "S ''/tmp''"]
    expand_alias_one_hop_per_call[of "[]" chained "S ''cd''" "[]" "S '' ''" "S ''/tmp''"]
  by (simp add: blank_def word_def trimmed_def isspace_def S_def chained_def)


section \<open>Properties of the argument classifier\<close>

subsection \<open>The loop, token by token\<close>

lemma fst_parse_step:
  "fst (parse_step env args i r) =
     (if starts_dash_or_slash (args ! i) \<and> i + 1 < length args \<and>
         \<not> starts_dash_or_slash (args ! (i + 1)) then i + 1 else i)"
  by (auto simp: parse_step_def Let_def starts_dash_or_slash_def)

lemmas [simp del] = parse_loop.simps

lemma parse_loop_as_fold:
  "i \<le> length args \<Longrightarrow> \<not> consumed args i \<Longrightarrow>
   parse_loop env args i r = foldl (token_effect env args) r [i..<length args]"
proof (induction env args i r rule: parse_loop.induct)
  case (1 env args i r)
  show ?case
  proof (cases "i < length args")
    case False
    then show ?thesis using "1.prems" by (simp add: parse_loop.simps)
  next
    case True
    let ?n = "length args"
    let ?r' = "snd (parse_step env args i r)"
    have unfold: "parse_loop env args i r =
                  parse_loop env args (fst (parse_step env args i r) + 1) ?r'"
      using True by (subst parse_loop.simps) simp
    have here: "foldl (token_effect env args) r [i..<?n] =
                foldl (token_effect env args) ?r' [i + 1..<?n]"
      using True "1.prems"(2) by (simp add: upt_conv_Cons token_effect_def)
    show ?thesis
    proof (cases "starts_dash_or_slash (args ! i) \<and> i + 1 < ?n \<and>
                  \<not> starts_dash_or_slash (args ! (i + 1))")
      case consume: True
      then have f: "fst (parse_step env args i r) = i + 1" by (simp add: fst_parse_step)
      have c1: "consumed args (i + 1)" using consume by (simp add: consumed_def)
      have c2: "\<not> consumed args (i + 2)" using consume by (simp add: consumed_def)
      have "parse_loop env args (i + 1 + 1) ?r' =
            foldl (token_effect env args) ?r' [i + 1 + 1..<?n]"
        using "1.IH"[OF True] consume c2 f by simp
      moreover have "foldl (token_effect env args) ?r' [i + 1..<?n] =
                     foldl (token_effect env args) ?r' [i + 1 + 1..<?n]"
        using consume c1 by (simp add: upt_conv_Cons token_effect_def)
      ultimately show ?thesis using unfold here f by simp
    next
      case keep: False
      then have f: "fst (parse_step env args i r) = i" by (simp add: fst_parse_step)
      have c1: "\<not> consumed args (i + 1)" using keep True
        by (auto simp: consumed_def)
      have "parse_loop env args (i + 1) ?r' = foldl (token_effect env args) ?r' [i + 1..<?n]"
        using "1.IH"[OF True] True c1 f by simp
      then show ?thesis using unfold here f by simp
    qed
  qed
qed


lemma fold_commands:
  "commands (foldl (token_effect env args) r ks) =
   commands r @ map (\<lambda>k. (drop 1 (args ! k), value_at args k))
                    (filter (\<lambda>k. startswith (args ! k) (S ''/'')) ks)"
proof (induction ks arbitrary: r)
  case Nil
  then show ?case by simp
next
  case (Cons k ks)
  have "commands (token_effect env args r k) =
        commands r @ (if startswith (args ! k) (S ''/'')
                      then [(drop 1 (args ! k), value_at args k)] else [])"
    by (auto simp: token_effect_def parse_step_def Let_def value_at_def consumed_def
        starts_dash_or_slash_def)
  then show ?case by (simp add: Cons.IH)
qed

lemma fold_options:
  "options (foldl (token_effect env args) r ks) =
   foldl (\<lambda>al k. AList.update (args ! k)
                    (case value_at args k of Some v \<Rightarrow> OptStr v | None \<Rightarrow> OptTrue) al)
         (options r)
         (filter (\<lambda>k. \<not> startswith (args ! k) (S ''/'') \<and> startswith (args ! k) (S ''-'')) ks)"
proof (induction ks arbitrary: r)
  case Nil
  then show ?case by simp
next
  case (Cons k ks)
  have "options (token_effect env args r k) =
        (if \<not> startswith (args ! k) (S ''/'') \<and> startswith (args ! k) (S ''-'')
         then AList.update (args ! k)
                (case value_at args k of Some v \<Rightarrow> OptStr v | None \<Rightarrow> OptTrue) (options r)
         else options r)"
    by (auto simp: token_effect_def parse_step_def Let_def value_at_def consumed_def
        starts_dash_or_slash_def)
  then show ?case by (simp add: Cons.IH)
qed

lemma fold_scripts:
  "scripts (foldl (token_effect env args) r ks) =
   scripts r @ map (\<lambda>k. args ! k) (filter (\<lambda>k. own_token args k \<and> endswith (args ! k) (S ''.zetas'')) ks)"
proof (induction ks arbitrary: r)
  case Nil
  then show ?case by simp
next
  case (Cons k ks)
  have "scripts (token_effect env args r k) =
        scripts r @ (if own_token args k \<and> endswith (args ! k) (S ''.zetas'') then [args ! k] else [])"
    by (auto simp: token_effect_def parse_step_def Let_def own_token_def
        starts_dash_or_slash_def)
  then show ?case by (simp add: Cons.IH)
qed

lemma fold_directories:
  "directories (foldl (token_effect env args) r ks) =
   directories r @ map (\<lambda>k. args ! k) (filter (\<lambda>k. own_token args k \<and> \<not> endswith (args ! k) (S ''.zetas'') \<and> isdir env (args ! k)) ks)"
proof (induction ks arbitrary: r)
  case Nil
  then show ?case by simp
next
  case (Cons k ks)
  have "directories (token_effect env args r k) =
        directories r @ (if own_token args k \<and> \<not> endswith (args ! k) (S ''.zetas'') \<and> isdir env (args ! k) then [args ! k] else [])"
    by (auto simp: token_effect_def parse_step_def Let_def own_token_def
        starts_dash_or_slash_def)
  then show ?case by (simp add: Cons.IH)
qed

lemma fold_files:
  "files (foldl (token_effect env args) r ks) =
   files r @ map (\<lambda>k. args ! k) (filter (\<lambda>k. own_token args k \<and> \<not> endswith (args ! k) (S ''.zetas'') \<and> \<not> isdir env (args ! k) \<and> \<not> is_executable env (args ! k)) ks)"
proof (induction ks arbitrary: r)
  case Nil
  then show ?case by simp
next
  case (Cons k ks)
  have "files (token_effect env args r k) =
        files r @ (if own_token args k \<and> \<not> endswith (args ! k) (S ''.zetas'') \<and> \<not> isdir env (args ! k) \<and> \<not> is_executable env (args ! k) then [args ! k] else [])"
    by (auto simp: token_effect_def parse_step_def Let_def own_token_def
        starts_dash_or_slash_def)
  then show ?case by (simp add: Cons.IH)
qed

lemma fold_executables:
  "executables (foldl (token_effect env args) r ks) =
   executables r @ map (\<lambda>k. args ! k) (filter (\<lambda>k. own_token args k \<and> \<not> endswith (args ! k) (S ''.zetas'') \<and> \<not> isdir env (args ! k) \<and> is_executable env (args ! k)) ks)"
proof (induction ks arbitrary: r)
  case Nil
  then show ?case by simp
next
  case (Cons k ks)
  have "executables (token_effect env args r k) =
        executables r @ (if own_token args k \<and> \<not> endswith (args ! k) (S ''.zetas'') \<and> \<not> isdir env (args ! k) \<and> is_executable env (args ! k) then [args ! k] else [])"
    by (auto simp: token_effect_def parse_step_def Let_def own_token_def
        starts_dash_or_slash_def)
  then show ?case by (simp add: Cons.IH)
qed

lemma parse_args_as_fold:
  "parse_args env args = foldl (token_effect env args) empty_result [0..<length args]"
  unfolding parse_args_def by (rule parse_loop_as_fold) (simp_all add: consumed_def)


lemma parse_args_buckets:
  fixes env args
  defines "pa \<equiv> parse_args env args" and "ks \<equiv> [0..<length args]"
  shows "commands pa = map (\<lambda>k. (drop 1 (args ! k), value_at args k))
                          (filter (\<lambda>k. startswith (args ! k) (S ''/'')) ks)"
    and "options pa =
           foldl (\<lambda>al k. AList.update (args ! k)
                    (case value_at args k of Some v \<Rightarrow> OptStr v | None \<Rightarrow> OptTrue) al) []
             (filter (\<lambda>k. \<not> startswith (args ! k) (S ''/'') \<and> startswith (args ! k) (S ''-'')) ks)"
    and "scripts pa = map (\<lambda>k. args ! k)
           (filter (\<lambda>k. own_token args k \<and> endswith (args ! k) (S ''.zetas'')) ks)"
    and "directories pa = map (\<lambda>k. args ! k)
           (filter (\<lambda>k. own_token args k \<and> \<not> endswith (args ! k) (S ''.zetas'') \<and>
                         isdir env (args ! k)) ks)"
    and "files pa = map (\<lambda>k. args ! k)
           (filter (\<lambda>k. own_token args k \<and> \<not> endswith (args ! k) (S ''.zetas'') \<and>
                         \<not> isdir env (args ! k) \<and> \<not> is_executable env (args ! k)) ks)"
    and "executables pa = map (\<lambda>k. args ! k)
           (filter (\<lambda>k. own_token args k \<and> \<not> endswith (args ! k) (S ''.zetas'') \<and>
                         \<not> isdir env (args ! k) \<and> is_executable env (args ! k)) ks)"
  unfolding pa_def ks_def parse_args_as_fold
  by (simp_all add: fold_commands fold_options fold_scripts fold_directories fold_files
      fold_executables empty_result_def)

subsection \<open>Flag tokens and their values\<close>

text \<open>
  Claim C8. Every token that starts with \<open>/\<close> is a flag-command, in the order of the
  tokens, with its name (the token without its first character) and its value: the next
  token when there is one that starts with neither \<open>-\<close> nor \<open>/\<close>, otherwise none. Every
  other token that starts with \<open>-\<close> is stored as an option under the same rule, with
  \<open>True\<close> when it has no value. A token taken as a value is classified nowhere else: the
  four path buckets hold exactly the tokens that are neither flags nor values, so the token
  after a flag is classified on its own exactly when it was not taken.
\<close>

theorem parse_args_flag_lookahead:
  "commands (parse_args env args) =
     map (\<lambda>k. (drop 1 (args ! k), value_at args k))
       (filter (\<lambda>k. startswith (args ! k) (S ''/'')) [0..<length args]) \<and>
   options (parse_args env args) =
     foldl (\<lambda>al k. AList.update (args ! k)
              (case value_at args k of Some v \<Rightarrow> OptStr v | None \<Rightarrow> OptTrue) al) []
       (filter (\<lambda>k. \<not> startswith (args ! k) (S ''/'') \<and> startswith (args ! k) (S ''-''))
          [0..<length args]) \<and>
   scripts (parse_args env args) =
     map (\<lambda>k. args ! k)
       (filter (\<lambda>k. own_token args k \<and> endswith (args ! k) (S ''.zetas'')) [0..<length args]) \<and>
   directories (parse_args env args) =
     map (\<lambda>k. args ! k)
       (filter (\<lambda>k. own_token args k \<and> \<not> endswith (args ! k) (S ''.zetas'') \<and>
                     isdir env (args ! k)) [0..<length args]) \<and>
   files (parse_args env args) =
     map (\<lambda>k. args ! k)
       (filter (\<lambda>k. own_token args k \<and> \<not> endswith (args ! k) (S ''.zetas'') \<and>
                     \<not> isdir env (args ! k) \<and> \<not> is_executable env (args ! k))
          [0..<length args]) \<and>
   executables (parse_args env args) =
     map (\<lambda>k. args ! k)
       (filter (\<lambda>k. own_token args k \<and> \<not> endswith (args ! k) (S ''.zetas'') \<and>
                     \<not> isdir env (args ! k) \<and> is_executable env (args ! k))
          [0..<length args])"
  by (intro conjI parse_args_buckets)

theorem parse_args_flag_lookahead_witness:
  "commands (parse_args no_files [S ''/p'', S ''1+1'', S ''-v'', S ''/q'', S ''-o'', S ''out.txt'', S ''a.zetas''])
     = [(S ''p'', Some (S ''1+1'')), (S ''q'', None)] \<and>
   options (parse_args no_files [S ''/p'', S ''1+1'', S ''-v'', S ''/q'', S ''-o'', S ''out.txt'', S ''a.zetas''])
     = [(S ''-v'', OptTrue), (S ''-o'', OptStr (S ''out.txt''))] \<and>
   scripts (parse_args no_files [S ''/p'', S ''1+1'', S ''-v'', S ''/q'', S ''-o'', S ''out.txt'', S ''a.zetas''])
     = [S ''a.zetas''] \<and>
   files (parse_args no_files [S ''/p'', S ''1+1'', S ''-v'', S ''/q'', S ''-o'', S ''out.txt'', S ''a.zetas''])
     = []"
  using parse_args_flag_lookahead[of no_files
      "[S ''/p'', S ''1+1'', S ''-v'', S ''/q'', S ''-o'', S ''out.txt'', S ''a.zetas'']"]
  by (simp add: S_def value_at_def own_token_def consumed_def starts_dash_or_slash_def
      startswith_def endswith_def)

subsection \<open>Tokens that are not existing paths\<close>

text \<open>
  Claim C3, as stated: a nonexistent token whose extension is in the allow-set goes to the
  executables. In a system where nothing exists, \<open>tool.exe\<close> (extension \<open>.exe\<close>) goes to the
  files: \<open>_is_executable\<close> returns \<open>False\<close> for a path that does not exist before it looks at
  the extension.
\<close>

theorem nonexistent_executable_name_is_file:
  "lower (snd (splitext Posix (S ''tool.exe''))) \<in> set executable_exts \<and>
   stat no_files (S ''tool.exe'') = None \<and>
   files (parse_args no_files [S ''tool.exe'']) = [S ''tool.exe''] \<and>
   executables (parse_args no_files [S ''tool.exe'']) = []"
  by (simp add: parse_args_buckets no_files_def S_def lower_def splitext_def rfind_def
      executable_exts_def enumerate_eq_zip upt_rec own_token_def consumed_def starts_dash_or_slash_def
      startswith_def endswith_def isdir_def is_executable_def path_exists_def)

text \<open>
  Claim C3, amended: \<open>_is_executable\<close> is false for every path that does not exist, so every
  token that is not an existing path, starts with neither \<open>/\<close> nor \<open>-\<close>, does not end with
  \<open>.zetas\<close> and is not taken as the value of the flag before it is placed in the files
  bucket and not in the executables bucket, whatever its extension.
\<close>

theorem nonexistent_token_is_file:
  "(stat env p = None \<longrightarrow> \<not> is_executable env p) \<and>
   (\<forall>k<length args.
      own_token args k \<and> \<not> endswith (args ! k) (S ''.zetas'') \<and> stat env (args ! k) = None \<longrightarrow>
      args ! k \<in> set (files (parse_args env args)) \<and>
      args ! k \<notin> set (executables (parse_args env args)))"
proof (intro conjI allI impI)
  show "\<not> is_executable env p" if "stat env p = None"
    using that by (simp add: is_executable_def path_exists_def)
next
  fix k
  assume k: "k < length args"
    and h: "own_token args k \<and> \<not> endswith (args ! k) (S ''.zetas'') \<and> stat env (args ! k) = None"
  have nx: "\<not> is_executable env (args ! k)" and nd: "\<not> isdir env (args ! k)"
    using h by (simp_all add: is_executable_def path_exists_def isdir_def)
  have "k \<in> set (filter (\<lambda>k. own_token args k \<and> \<not> endswith (args ! k) (S ''.zetas'') \<and>
                              \<not> isdir env (args ! k) \<and> \<not> is_executable env (args ! k))
                     [0..<length args])"
    using k h nx nd by simp
  then have "args ! k \<in> (\<lambda>k. args ! k) `
               set (filter (\<lambda>k. own_token args k \<and> \<not> endswith (args ! k) (S ''.zetas'') \<and>
                                 \<not> isdir env (args ! k) \<and> \<not> is_executable env (args ! k))
                      [0..<length args])"
    by (rule imageI)
  then show "args ! k \<in> set (files (parse_args env args))"
    by (simp only: parse_args_buckets set_map)
  show "args ! k \<notin> set (executables (parse_args env args))"
    using nx by (auto simp: parse_args_buckets)
qed

theorem nonexistent_token_is_file_witness:
  "S ''tool.exe'' \<in> set (files (parse_args no_files [S ''nosuchdir'', S ''tool.exe''])) \<and>
   S ''tool.exe'' \<notin> set (executables (parse_args no_files [S ''nosuchdir'', S ''tool.exe'']))"
  using nonexistent_token_is_file[of no_files "S ''tool.exe''" "[S ''nosuchdir'', S ''tool.exe'']",
      THEN conjunct2, rule_format, of 1]
  by (simp add: no_files_def S_def own_token_def consumed_def starts_dash_or_slash_def
      startswith_def endswith_def)


section \<open>Properties of the priority executor\<close>

subsection \<open>The loops as one list of steps\<close>

lemma run_steps_Nil [simp]: "run_steps H parsed acc [] = acc"
  by (simp add: run_steps_def)

lemma run_steps_Abrupt [simp]: "run_steps H parsed (Abrupt x w) steps = Abrupt x w"
  by (induction steps) (simp_all add: run_steps_def execute_item_def)

lemma run_steps_Cons:
  "run_steps H parsed (Normal rs w) ((category, handler, item) # steps) =
     (case call_handler category handler item (options parsed) w of
        (out, w') \<Rightarrow>
          (case out of
             Aborts x \<Rightarrow> Abrupt x w'
           | _ \<Rightarrow> run_steps H parsed (Normal (rs @ result_of H category item out) w') steps))"
proof -
  obtain out w' where c: "call_handler category handler item (options parsed) w = (out, w')"
    by (cases "call_handler category handler item (options parsed) w")
  have "run_steps H parsed (Normal rs w) ((category, handler, item) # steps) =
        run_steps H parsed (execute_item H parsed category handler (Normal rs w) item) steps"
    by (simp add: run_steps_def)
  then show ?thesis
    by (cases out) (simp_all add: c execute_item_def)
qed

lemma execute_in_order_flat:
  "execute_in_order H parsed w =
     foldl (apply_option H) (run_steps H parsed (Normal [] w) (flat_steps H parsed))
       (options parsed)"
  by (simp add: execute_in_order_def run_steps_def flat_steps_def execution_sequence_def
      foldl_map)

lemma traced_sel [simp]:
  "repr_str (traced H) = repr_str H"
  "execute_command (traced H) = traced_command (execute_command H)"
  "execute_script (traced H) = traced_path ''scripts'' (execute_script H)"
  "process_file (traced H) = traced_path ''files'' (process_file H)"
  "process_directory (traced H) = traced_path ''directories'' (process_directory H)"
  "execute_program (traced H) = traced_path ''executables'' (execute_program H)"
  "config_set (traced H) key v (w, log) = (config_set H key v w, log @ [ConfigSet key v])"
  by (simp_all add: traced_def)

lemma error_label_traced [simp]: "error_label (traced H) = error_label H"
  by (intro ext) (simp add: error_label_def str_item_def split: item.splits option.splits)

lemma result_of_traced [simp]: "result_of (traced H) = result_of H"
  by (intro ext) (simp add: result_of_def split: outcome.splits)

lemma call_of_simps [simp]:
  "call_of (Dispatched category item out) = Call category item"
  "call_of (ConfigSet key v) = SetConfig key v"
  by (simp_all add: call_of_def)

lemma dispatch_results_simps [simp]:
  "dispatch_results H [] = []"
  "dispatch_results H (Dispatched category item out # evs) =
     result_of H category item out @ dispatch_results H evs"
  "dispatch_results H (a @ b) = dispatch_results H a @ dispatch_results H b"
  by (simp_all add: dispatch_results_def)

lemma with_log_simps [simp]:
  "with_log log (Normal rs w) = Normal rs (w, log)"
  "with_log log (Abrupt x w) = Abrupt x (w, log)"
  by (simp_all add: with_log_def)

lemma flat_steps_traced:
  "flat_steps (traced H) parsed =
     map (\<lambda>(category, handler, item). (category, traced_handler category handler, item))
       (flat_steps H parsed)"
  by (simp add: flat_steps_def execution_sequence_def traced_handler_def)

lemma flat_steps_shaped: "\<forall>step\<in>set (flat_steps H parsed). shaped step"
  by (auto simp: flat_steps_def execution_sequence_def get_items_def shaped_def)

lemma flat_steps_calls:
  "map (\<lambda>(category, handler, item). Call category item) (flat_steps H parsed) =
     dispatch_order parsed"
  by (simp add: flat_steps_def execution_sequence_def get_items_def dispatch_order_def
      split_def comp_def)

lemma call_handler_traced:
  "shaped (category, handler, item) \<Longrightarrow>
   call_handler category (traced_handler category handler) item opts (w, log) =
     (case call_handler category handler item opts w of
        (out, w') \<Rightarrow> (out, w', log @ [Dispatched category item out]))"
  by (cases handler; cases item)
     (simp_all add: shaped_def call_handler_def traced_handler_def traced_command_def
       traced_path_def)

lemma run_steps_traced:
  "\<forall>step\<in>set steps. shaped step \<Longrightarrow>
   run_steps (traced H) parsed (Normal rs (w, log))
     (map (\<lambda>(category, handler, item). (category, traced_handler category handler, item)) steps)
   = with_log (log @ events_of parsed steps w) (run_steps H parsed (Normal rs w) steps)"
proof (induction steps arbitrary: rs w log)
  case Nil
  show ?case by simp
next
  case (Cons step steps)
  obtain category handler item where s: "step = (category, handler, item)" by (cases step)
  obtain out w' where c: "call_handler category handler item (options parsed) w = (out, w')"
    by (cases "call_handler category handler item (options parsed) w")
  have sh: "shaped (category, handler, item)" using Cons.prems s by simp
  have ct: "call_handler category (traced_handler category handler) item (options parsed) (w, log)
            = (out, w', log @ [Dispatched category item out])"
    using call_handler_traced[OF sh] c by simp
  show ?case
  proof (cases out)
    case (Aborts x)
    then show ?thesis by (simp add: s run_steps_Cons c ct)
  next
    case (Returns v)
    have "run_steps (traced H) parsed
            (Normal (rs @ result_of H category item out) (w', log @ [Dispatched category item out]))
            (map (\<lambda>(category, handler, item). (category, traced_handler category handler, item)) steps)
          = with_log ((log @ [Dispatched category item out]) @ events_of parsed steps w')
              (run_steps H parsed (Normal (rs @ result_of H category item out) w') steps)"
      using Cons.prems by (intro Cons.IH) simp
    then show ?thesis using Returns by (simp add: s run_steps_Cons c ct)
  next
    case (Raises e)
    have "run_steps (traced H) parsed
            (Normal (rs @ result_of H category item out) (w', log @ [Dispatched category item out]))
            (map (\<lambda>(category, handler, item). (category, traced_handler category handler, item)) steps)
          = with_log ((log @ [Dispatched category item out]) @ events_of parsed steps w')
              (run_steps H parsed (Normal (rs @ result_of H category item out) w') steps)"
      using Cons.prems by (intro Cons.IH) simp
    then show ?thesis using Raises by (simp add: s run_steps_Cons c ct)
  qed
qed

subsection \<open>The log of a run\<close>

lemma aborting_simps [simp]:
  "aborting (Dispatched category item (Aborts x))"
  "\<not> aborting (Dispatched category item (Returns v))"
  "\<not> aborting (Dispatched category item (Raises e))"
  "\<not> aborting (ConfigSet key val)"
  by (simp_all add: aborting_def)

lemma left_by_simps [simp]:
  "left_by (Dispatched category item (Aborts x)) = Some x"
  "left_by (Dispatched category item (Returns v)) = None"
  "left_by (Dispatched category item (Raises e)) = None"
  "left_by (ConfigSet key val) = None"
  by (simp_all add: left_by_def)

lemma returned_simps [simp]:
  "returned (Normal rs w)" "\<not> returned (Abrupt x w)"
  "results_of (Normal rs w) = rs" "results_of (Abrupt x w) = []"
  "world_of (Normal rs w) = w" "world_of (Abrupt x w) = w"
  by (simp_all add: returned_def results_of_def world_of_def)

lemma left_by_aborting: "left_by ev = Some x \<Longrightarrow> aborting ev"
  by (auto simp: left_by_def aborting_def split: event.splits outcome.splits)

text \<open>The events of a list of steps against the plain run.\<close>

lemma events_prefix:
  "prefix (map call_of (events_of parsed steps w))
          (map (\<lambda>(category, handler, item). Call category item) steps)"
proof (induction steps arbitrary: w)
  case Nil
  show ?case by simp
next
  case (Cons step steps)
  obtain category handler item where s: "step = (category, handler, item)" by (cases step)
  obtain out w' where c: "call_handler category handler item (options parsed) w = (out, w')"
    by (cases "call_handler category handler item (options parsed) w")
  show ?case by (cases out) (simp_all add: s c Cons.IH)
qed

lemma events_butlast:
  "\<forall>ev\<in>set (butlast (events_of parsed steps w)). \<not> aborting ev"
proof (induction steps arbitrary: w)
  case Nil
  show ?case by simp
next
  case (Cons step steps)
  obtain category handler item where s: "step = (category, handler, item)" by (cases step)
  obtain out w' where c: "call_handler category handler item (options parsed) w = (out, w')"
    by (cases "call_handler category handler item (options parsed) w")
  show ?case using Cons.IH[of w'] by (cases out) (auto simp: s c)
qed

lemma events_normal:
  "run_steps H parsed (Normal rs w) steps = Normal rs' w' \<Longrightarrow>
   rs' = rs @ dispatch_results H (events_of parsed steps w) \<and>
   map call_of (events_of parsed steps w) =
     map (\<lambda>(category, handler, item). Call category item) steps \<and>
   (\<forall>ev\<in>set (events_of parsed steps w). \<not> aborting ev) \<and>
   length (dispatch_results H (events_of parsed steps w)) = length steps"
proof (induction steps arbitrary: rs w)
  case Nil
  then show ?case by simp
next
  case (Cons step steps)
  obtain category handler item where s: "step = (category, handler, item)" by (cases step)
  obtain out w1 where c: "call_handler category handler item (options parsed) w = (out, w1)"
    by (cases "call_handler category handler item (options parsed) w")
  show ?case
  proof (cases out)
    case (Aborts x)
    then show ?thesis using Cons.prems by (simp add: s run_steps_Cons c)
  next
    case (Returns v)
    then have "run_steps H parsed (Normal (rs @ result_of H category item out) w1) steps
               = Normal rs' w'"
      using Cons.prems by (simp add: s run_steps_Cons c)
    from Cons.IH[OF this] show ?thesis using Returns by (simp add: s c result_of_def)
  next
    case (Raises e)
    then have "run_steps H parsed (Normal (rs @ result_of H category item out) w1) steps
               = Normal rs' w'"
      using Cons.prems by (simp add: s run_steps_Cons c)
    from Cons.IH[OF this] show ?thesis using Raises by (simp add: s c result_of_def)
  qed
qed

lemma events_abrupt:
  "run_steps H parsed (Normal rs w) steps = Abrupt x w' \<Longrightarrow>
   events_of parsed steps w \<noteq> [] \<and> left_by (last (events_of parsed steps w)) = Some x"
proof (induction steps arbitrary: rs w)
  case Nil
  then show ?case by simp
next
  case (Cons step steps)
  obtain category handler item where s: "step = (category, handler, item)" by (cases step)
  obtain out w1 where c: "call_handler category handler item (options parsed) w = (out, w1)"
    by (cases "call_handler category handler item (options parsed) w")
  show ?case
  proof (cases out)
    case (Aborts y)
    then show ?thesis using Cons.prems by (simp add: s run_steps_Cons c)
  next
    case (Returns v)
    then have "run_steps H parsed (Normal (rs @ result_of H category item out) w1) steps
               = Abrupt x w'"
      using Cons.prems by (simp add: s run_steps_Cons c)
    from Cons.IH[OF this] show ?thesis using Returns by (simp add: s c)
  next
    case (Raises e)
    then have "run_steps H parsed (Normal (rs @ result_of H category item out) w1) steps
               = Abrupt x w'"
      using Cons.prems by (simp add: s run_steps_Cons c)
    from Cons.IH[OF this] show ?thesis using Raises by (simp add: s c)
  qed
qed

lemma events_returned:
  "returned (run_steps H parsed (Normal rs w) steps) \<longleftrightarrow>
   (\<forall>ev\<in>set (events_of parsed steps w). \<not> aborting ev)"
proof (cases "run_steps H parsed (Normal rs w) steps")
  case (Normal rs' w')
  then show ?thesis using events_normal[OF Normal] by simp
next
  case (Abrupt x w')
  from events_abrupt[OF Abrupt] have "aborting (last (events_of parsed steps w))"
    by (simp add: left_by_aborting)
  moreover have "last (events_of parsed steps w) \<in> set (events_of parsed steps w)"
    using events_abrupt[OF Abrupt] by simp
  ultimately show ?thesis using Abrupt by auto
qed

text \<open>The loop over the options.\<close>

lemma options_Abrupt [simp]: "foldl (apply_option H) (Abrupt x w) opts = Abrupt x w"
  by (induction opts) (simp_all add: apply_option_def)

lemma options_Normal:
  "\<exists>w'. foldl (apply_option H) (Normal rs w) opts = Normal (rs @ option_results opts) w' \<and>
         foldl (apply_option (traced H)) (Normal rs (w, log)) opts =
           Normal (rs @ option_results opts) (w', log @ option_events opts)"
proof (induction opts arbitrary: rs w log)
  case Nil
  show ?case by (simp add: option_results_def option_events_def)
next
  case (Cons ov opts)
  have r: "option_results (ov # opts) = option_results [ov] @ option_results opts"
    and e: "option_events (ov # opts) = option_events [ov] @ option_events opts"
    by (simp_all add: option_results_def option_events_def)
  have "\<exists>w1. apply_option H (Normal rs w) ov = Normal (rs @ option_results [ov]) w1 \<and>
              apply_option (traced H) (Normal rs (w, log)) ov =
                Normal (rs @ option_results [ov]) (w1, log @ option_events [ov])"
    by (cases ov) (simp add: apply_option_def option_results_def option_events_def)
  then obtain w1 where
    s1: "apply_option H (Normal rs w) ov = Normal (rs @ option_results [ov]) w1" and
    s2: "apply_option (traced H) (Normal rs (w, log)) ov =
           Normal (rs @ option_results [ov]) (w1, log @ option_events [ov])"
    by blast
  from Cons.IH[of "rs @ option_results [ov]" w1 "log @ option_events [ov]"]
  show ?case by (simp add: s1 s2 r e)
qed

lemma call_of_option_events: "map call_of (option_events opts) = option_calls opts"
  by (induction opts) (auto simp: option_events_def option_calls_def)

lemma dispatch_results_option_events: "dispatch_results H (option_events opts) = []"
  by (induction opts) (auto simp: option_events_def dispatch_results_def)

lemma no_abort_option_events: "\<forall>ev\<in>set (option_events opts). \<not> aborting ev"
  by (induction opts) (auto simp: option_events_def)

text \<open>The whole run, plain and recorded.\<close>

lemma execute_in_order_cases:
  fixes H :: "'w handlers" and parsed :: parsed_args and w :: 'w
  defines "evs \<equiv> events_of parsed (flat_steps H parsed) w"
  shows "(\<exists>w'. execute_in_order H parsed w =
                  Normal (dispatch_results H evs @ option_results (options parsed)) w' \<and>
               execute_in_order (traced H) parsed (w, []) =
                  Normal (dispatch_results H evs @ option_results (options parsed))
                    (w', evs @ option_events (options parsed)) \<and>
               map call_of evs = dispatch_order parsed \<and>
               (\<forall>ev\<in>set evs. \<not> aborting ev) \<and>
               length (dispatch_results H evs) = length (dispatch_order parsed)) \<or>
         (\<exists>x w'. execute_in_order H parsed w = Abrupt x w' \<and>
                 execute_in_order (traced H) parsed (w, []) = Abrupt x (w', evs) \<and>
                 prefix (map call_of evs) (dispatch_order parsed) \<and>
                 evs \<noteq> [] \<and> left_by (last evs) = Some x \<and>
                 (\<forall>ev\<in>set (butlast evs). \<not> aborting ev))"
proof -
  let ?M = "run_steps H parsed (Normal [] w) (flat_steps H parsed)"
  have tr: "run_steps (traced H) parsed (Normal [] (w, [])) (flat_steps (traced H) parsed)
            = with_log evs ?M"
    unfolding flat_steps_traced evs_def
    using run_steps_traced[where steps = "flat_steps H parsed" and H = H and parsed = parsed
        and rs = "[]" and w = w and log = "[]", OF flat_steps_shaped] by simp
  have flat_length: "length (flat_steps H parsed) = length (dispatch_order parsed)"
    using arg_cong[OF flat_steps_calls[of H parsed], of length] by simp
  show ?thesis
  proof (cases ?M)
    case (Normal rs w1)
    from events_normal[OF Normal] have
      rs: "rs = dispatch_results H evs" and
      calls: "map call_of evs = dispatch_order parsed" and
      na: "\<forall>ev\<in>set evs. \<not> aborting ev" and
      len: "length (dispatch_results H evs) = length (dispatch_order parsed)"
      unfolding evs_def using flat_length by (simp_all add: flat_steps_calls)
    obtain w' where
      "foldl (apply_option H) (Normal rs w1) (options parsed) =
         Normal (rs @ option_results (options parsed)) w'"
      "foldl (apply_option (traced H)) (Normal rs (w1, evs)) (options parsed) =
         Normal (rs @ option_results (options parsed)) (w', evs @ option_events (options parsed))"
      using options_Normal[where H = H and rs = rs and w = w1 and opts = "options parsed"
          and log = evs] by blast
    then show ?thesis
      using Normal tr rs calls na len by (simp add: execute_in_order_flat)
  next
    case (Abrupt x w1)
    from events_abrupt[OF Abrupt] have "evs \<noteq> []" "left_by (last evs) = Some x"
      unfolding evs_def by simp_all
    moreover have "prefix (map call_of evs) (dispatch_order parsed)"
      unfolding evs_def using events_prefix[of parsed "flat_steps H parsed" w]
      by (simp add: flat_steps_calls)
    moreover have "\<forall>ev\<in>set (butlast evs). \<not> aborting ev"
      unfolding evs_def by (rule events_butlast)
    ultimately show ?thesis
      using Abrupt tr by (simp add: execute_in_order_flat)
  qed
qed

lemma events_never_abort:
  "\<forall>step\<in>set steps. \<forall>w x. fst (call_handler (fst step) (fst (snd step)) (snd (snd step))
                                   (options parsed) w) \<noteq> Aborts x \<Longrightarrow>
   \<forall>ev\<in>set (events_of parsed steps w). \<not> aborting ev"
proof (induction steps arbitrary: w)
  case Nil
  show ?case by simp
next
  case (Cons step steps)
  obtain category handler item where s: "step = (category, handler, item)" by (cases step)
  obtain out w' where c: "call_handler category handler item (options parsed) w = (out, w')"
    by (cases "call_handler category handler item (options parsed) w")
  have na: "\<forall>x. out \<noteq> Aborts x"
    using Cons.prems s c by (metis fst_conv list.set_intros(1) snd_conv)
  have "\<forall>ev\<in>set (events_of parsed steps w'). \<not> aborting ev"
    using Cons.prems by (intro Cons.IH) simp
  then show ?case using na by (cases out) (simp_all add: s c)
qed

lemma flat_steps_never_abort:
  assumes "never_aborts H"
  shows "\<forall>step\<in>set (flat_steps H parsed). \<forall>w x.
           fst (call_handler (fst step) (fst (snd step)) (snd (snd step)) (options parsed) w)
             \<noteq> Aborts x"
  using assms
  by (auto simp: never_aborts_def flat_steps_def execution_sequence_def get_items_def
      call_handler_def)

lemma never_aborts_returned:
  assumes "never_aborts H"
  shows "returned (execute_in_order H parsed w)"
proof -
  have na: "\<forall>ev\<in>set (events_of parsed (flat_steps H parsed) w). \<not> aborting ev"
    using flat_steps_never_abort[OF assms] by (rule events_never_abort)
  from execute_in_order_cases[of H parsed w] show ?thesis
  proof (elim disjE exE conjE)
    fix w'
    assume "execute_in_order H parsed w =
              Normal (dispatch_results H (events_of parsed (flat_steps H parsed) w) @
                      option_results (options parsed)) w'"
    then show ?thesis by simp
  next
    fix x w'
    assume "events_of parsed (flat_steps H parsed) w \<noteq> []"
      and "left_by (last (events_of parsed (flat_steps H parsed) w)) = Some x"
    then have "\<exists>ev\<in>set (events_of parsed (flat_steps H parsed) w). aborting ev"
      using left_by_aborting last_in_set by blast
    then show ?thesis using na by blast
  qed
qed

lemma length_dispatch_order:
  "length (dispatch_order parsed) =
     length (commands parsed) + length (scripts parsed) + length (files parsed) +
     length (directories parsed) + length (executables parsed)"
  by (simp add: dispatch_order_def)

lemma log_simps [simp]:
  "log_of (Normal rs (w, log)) = log" "log_of (Abrupt x (w, log)) = log"
  "forget_log (Normal rs (w, log)) = Normal rs w" "forget_log (Abrupt x (w, log)) = Abrupt x w"
  by (simp_all add: log_of_def forget_log_def)

lemma never_aborts_demo: "never_aborts demo_handlers"
  by (simp add: never_aborts_def demo_handlers_def)

lemma exiting_run:
  "execute_in_order exiting_handlers demo_parsed () = Abrupt (BaseExc (S ''SystemExit'')) ()"
  by (simp add: execute_in_order_def execution_sequence_def get_items_def demo_parsed_def
      execute_item_def call_handler_def apply_option_def exiting_handlers_def
      demo_handlers_def)

subsection \<open>The order of the calls\<close>

text \<open>
  Claim C6. For every classified input, every choice of handlers and every world, the calls
  that \<open>execute_in_order\<close> makes follow the order: the flag-commands, the scripts, the
  files, the directories and the executables, each bucket in its own order, and only then
  the \<open>config.set\<close> calls of the options \<open>-console\<close> and \<open>-bash\<close>. The calls made are always
  a beginning of that sequence, and all of it when the method returns, which it does
  whenever no handler call fails to come back. Recording the calls changes neither the
  results nor the world.
\<close>

theorem execute_in_order_dispatch_order:
  "prefix (map call_of (log_of (execute_in_order (traced H) parsed (w, []))))
     (dispatch_order parsed @ option_calls (options parsed)) \<and>
   (returned (execute_in_order (traced H) parsed (w, [])) \<longrightarrow>
      map call_of (log_of (execute_in_order (traced H) parsed (w, []))) =
        dispatch_order parsed @ option_calls (options parsed)) \<and>
   (never_aborts H \<longrightarrow> returned (execute_in_order (traced H) parsed (w, []))) \<and>
   forget_log (execute_in_order (traced H) parsed (w, [])) = execute_in_order H parsed w"
proof -
  have r: "never_aborts H \<longrightarrow> returned (execute_in_order H parsed w)"
    by (simp add: never_aborts_returned)
  from execute_in_order_cases[of H parsed w] show ?thesis
  proof (elim disjE exE conjE)
    fix w'
    assume "execute_in_order H parsed w =
              Normal (dispatch_results H (events_of parsed (flat_steps H parsed) w) @
                      option_results (options parsed)) w'"
      and "execute_in_order (traced H) parsed (w, []) =
              Normal (dispatch_results H (events_of parsed (flat_steps H parsed) w) @
                      option_results (options parsed))
                (w', events_of parsed (flat_steps H parsed) w @ option_events (options parsed))"
      and "map call_of (events_of parsed (flat_steps H parsed) w) = dispatch_order parsed"
    then show ?thesis by (simp add: call_of_option_events)
  next
    fix x w'
    assume "execute_in_order H parsed w = Abrupt x w'"
      and "execute_in_order (traced H) parsed (w, []) =
             Abrupt x (w', events_of parsed (flat_steps H parsed) w)"
      and "prefix (map call_of (events_of parsed (flat_steps H parsed) w)) (dispatch_order parsed)"
    then show ?thesis using r by (simp add: prefix_prefix)
  qed
qed

theorem execute_in_order_dispatch_order_witness:
  "never_aborts demo_handlers \<and>
   map call_of (log_of (execute_in_order (traced demo_handlers) demo_parsed ((), []))) =
     [Call ''commands'' (CommandItem (S ''p'') (Some (S ''1+1''))),
      Call ''scripts'' (PathItem (S ''a.zetas'')),
      Call ''files'' (PathItem (S ''notes.txt'')),
      Call ''executables'' (PathItem (S ''run.sh'')),
      SetConfig (S ''enable_bash_syntax'') (CfgBool True)]"
  using execute_in_order_dispatch_order[of demo_handlers demo_parsed "()"] never_aborts_demo
  by (simp add: dispatch_order_def option_calls_def demo_parsed_def S_def)

subsection \<open>One result for each item\<close>

text \<open>
  Claim C5, as stated: the length of the result list is the number of classified items, a
  handler that signals failure is recorded with the reason in the label, and a handler that
  raises never prevents the items after it. With no item and the options \<open>-console\<close>,
  \<open>-x\<close>, \<open>-y\<close> the list has one result (neither zero, the number of items of the five
  buckets, nor three, the number of options); the file handler that returns \<open>False\<close> is
  recorded under the plain label of the item; and when the command handler leaves by
  \<open>SystemExit\<close>, no list is returned.
\<close>

theorem option_results_counted:
  "length (results_of (execute_in_order demo_handlers options_only ())) = 1 \<and>
   length (commands options_only) + length (scripts options_only) +
   length (files options_only) + length (directories options_only) +
   length (executables options_only) = 0 \<and>
   length (options options_only) = 3 \<and>
   results_of (execute_in_order demo_handlers (empty_result\<lparr>files := [S ''notes.txt'']\<rparr>) ())
     = [(S ''file: notes.txt'', Some False)] \<and>
   execute_in_order exiting_handlers demo_parsed () = Abrupt (BaseExc (S ''SystemExit'')) ()"
  by (simp add: execute_in_order_def execution_sequence_def get_items_def options_only_def
      empty_result_def demo_parsed_def execute_item_def call_handler_def apply_option_def
      exiting_handlers_def demo_handlers_def result_of_def success_label_def S_def)

text \<open>
  Claim C5, amended: the executor isolates, per item, the handlers that return or raise an
  \<open>Exception\<close>. The method returns exactly when every handler call came back; then the
  handler of every item of the five buckets was called, in order, and each call gave
  exactly one result, made from the outcome of that call: a handler that raises an
  \<open>Exception\<close> is recorded as failed under a label that ends with the text of the
  exception, and a handler that returns is recorded with the value it returned under the
  plain label of the item. The list returned is these results followed by one result for
  each option \<open>-console\<close> or \<open>-bash\<close>, so its length is the number of items of the five
  buckets plus the number of those options. A handler call that does not come back (an
  exception that is not an \<open>Exception\<close>, such as \<open>SystemExit\<close>, or a call that never
  returns) is not isolated: it is the last call made, the items and options after it are
  not processed, and no list is returned.
\<close>

theorem execute_in_order_fault_isolation:
  "forget_log (execute_in_order (traced H) parsed (w, [])) = execute_in_order H parsed w \<and>
   (returned (execute_in_order H parsed w) \<longleftrightarrow>
      (\<forall>ev\<in>set (log_of (execute_in_order (traced H) parsed (w, []))). \<not> aborting ev)) \<and>
   (returned (execute_in_order H parsed w) \<longrightarrow>
      map call_of (log_of (execute_in_order (traced H) parsed (w, []))) =
        dispatch_order parsed @ option_calls (options parsed) \<and>
      results_of (execute_in_order H parsed w) =
        dispatch_results H (log_of (execute_in_order (traced H) parsed (w, []))) @
        option_results (options parsed) \<and>
      length (results_of (execute_in_order H parsed w)) =
        length (commands parsed) + length (scripts parsed) + length (files parsed) +
        length (directories parsed) + length (executables parsed) +
        length (option_results (options parsed))) \<and>
   (\<forall>x w'. execute_in_order H parsed w = Abrupt x w' \<longrightarrow>
      log_of (execute_in_order (traced H) parsed (w, [])) \<noteq> [] \<and>
      left_by (last (log_of (execute_in_order (traced H) parsed (w, [])))) = Some x \<and>
      prefix (map call_of (log_of (execute_in_order (traced H) parsed (w, []))))
        (dispatch_order parsed) \<and>
      (\<forall>ev\<in>set (butlast (log_of (execute_in_order (traced H) parsed (w, [])))).
         \<not> aborting ev)) \<and>
   (never_aborts H \<longrightarrow> returned (execute_in_order H parsed w)) \<and>
   result_of H category item (Returns v) = [(success_label category item, v)] \<and>
   result_of H category item (Raises e) = [(error_label H category item e, Some False)] \<and>
   suffix e (error_label H category item e) \<and>
   result_of H category item (Aborts y) = []"
proof -
  have suf: "suffix e (error_label H category item e)"
    unfolding error_label_def by (intro suffix_appendI) simp
  have r: "never_aborts H \<longrightarrow> returned (execute_in_order H parsed w)"
    by (simp add: never_aborts_returned)
  from execute_in_order_cases[of H parsed w] show ?thesis
  proof (elim disjE exE conjE)
    fix w'
    assume "execute_in_order H parsed w =
              Normal (dispatch_results H (events_of parsed (flat_steps H parsed) w) @
                      option_results (options parsed)) w'"
      and "execute_in_order (traced H) parsed (w, []) =
              Normal (dispatch_results H (events_of parsed (flat_steps H parsed) w) @
                      option_results (options parsed))
                (w', events_of parsed (flat_steps H parsed) w @ option_events (options parsed))"
      and "map call_of (events_of parsed (flat_steps H parsed) w) = dispatch_order parsed"
      and "\<forall>ev\<in>set (events_of parsed (flat_steps H parsed) w). \<not> aborting ev"
      and "length (dispatch_results H (events_of parsed (flat_steps H parsed) w)) =
             length (dispatch_order parsed)"
    then show ?thesis
      using suf no_abort_option_events[of "options parsed"]
      by (simp add: call_of_option_events dispatch_results_option_events
          length_dispatch_order result_of_def ball_Un)
  next
    fix x w'
    assume "execute_in_order H parsed w = Abrupt x w'"
      and "execute_in_order (traced H) parsed (w, []) =
             Abrupt x (w', events_of parsed (flat_steps H parsed) w)"
      and "prefix (map call_of (events_of parsed (flat_steps H parsed) w)) (dispatch_order parsed)"
      and "events_of parsed (flat_steps H parsed) w \<noteq> []"
      and "left_by (last (events_of parsed (flat_steps H parsed) w)) = Some x"
      and "\<forall>ev\<in>set (butlast (events_of parsed (flat_steps H parsed) w)). \<not> aborting ev"
    moreover from this have "\<exists>ev\<in>set (events_of parsed (flat_steps H parsed) w). aborting ev"
      using left_by_aborting last_in_set by blast
    ultimately show ?thesis
      using suf r by (simp add: result_of_def)
  qed
qed

theorem execute_in_order_fault_isolation_witness:
  "results_of (execute_in_order demo_handlers demo_parsed ()) =
     [([0x547D, 0x4EE4] @ S '': /p 1+1'', Some True),
      (S ''script: a.zetas - '' @ [0x9519, 0x8BEF] @ S '': boom'', Some False),
      (S ''file: notes.txt'', Some False),
      (S ''executable: run.sh'', Some True),
      (bash_label, Some True)] \<and>
   length (results_of (execute_in_order demo_handlers demo_parsed ())) = 5 \<and>
   left_by (last (log_of (execute_in_order (traced exiting_handlers) demo_parsed ((), []))))
     = Some (BaseExc (S ''SystemExit''))"
proof -
  note T = execute_in_order_fault_isolation[of demo_handlers demo_parsed "()" "''files''"
      "PathItem []" None "[]" NoReturn]
  have ret: "returned (execute_in_order demo_handlers demo_parsed ())"
    using T never_aborts_demo by blast
  have "length (results_of (execute_in_order demo_handlers demo_parsed ())) =
        length (commands demo_parsed) + length (scripts demo_parsed) +
        length (files demo_parsed) + length (directories demo_parsed) +
        length (executables demo_parsed) + length (option_results (options demo_parsed))"
    using T ret by blast
  then have len: "length (results_of (execute_in_order demo_handlers demo_parsed ())) = 5"
    by (simp add: demo_parsed_def option_results_def S_def)
  have res: "results_of (execute_in_order demo_handlers demo_parsed ()) =
     [([0x547D, 0x4EE4] @ S '': /p 1+1'', Some True),
      (S ''script: a.zetas - '' @ [0x9519, 0x8BEF] @ S '': boom'', Some False),
      (S ''file: notes.txt'', Some False),
      (S ''executable: run.sh'', Some True),
      (bash_label, Some True)]"
    by (simp add: execute_in_order_def execution_sequence_def get_items_def demo_parsed_def
        execute_item_def call_handler_def apply_option_def demo_handlers_def result_of_def
        success_label_def error_label_def str_item_def S_def)
  note X = execute_in_order_fault_isolation[of exiting_handlers demo_parsed "()" "''files''"
      "PathItem []" None "[]" NoReturn]
  have ab: "left_by (last (log_of (execute_in_order (traced exiting_handlers) demo_parsed ((), []))))
              = Some (BaseExc (S ''SystemExit''))"
    using X exiting_run by blast
  show ?thesis using len res ab by simp
qed

end
